theory Spec2Isabelle
  imports Main "HOL-Library.Multiset" "HOL-Library.Char_ord" "HOL-Library.List_Lexorder"
begin

section \<open>Tables\<close>

text \<open>
  A cell of a table read from a tab-separated file is a text value or pandas' missing value.
  No function of the script does arithmetic on a cell, so numeric fields are kept as their text.
  A row is the association list of its cells by column name; a table (DataFrame) is its column
  index and its rows.
\<close>

datatype cell = NaN | Str string

type_synonym row = "(string \<times> cell) list"

record frame =
  columns :: "string list"
  rows :: "row list"

text \<open>Reading a cell: a column the row does not carry reads as missing.\<close>

definition cell_at :: "row \<Rightarrow> string \<Rightarrow> cell" where
  "cell_at r c = (case map_of r c of Some v \<Rightarrow> v | None \<Rightarrow> NaN)"

text \<open>\<^verbatim>\<open>Series.isin(values)\<close>: a missing value is in no set of strings.\<close>

fun isin :: "cell \<Rightarrow> string set \<Rightarrow> bool" where
  "isin NaN vs = False"
| "isin (Str s) vs = (s \<in> vs)"

fun notna :: "cell \<Rightarrow> bool" where
  "notna NaN = False"
| "notna (Str s) = True"

text \<open>\<^verbatim>\<open>df.empty\<close>: true when either axis has length zero.\<close>

definition df_empty :: "frame \<Rightarrow> bool" where
  "df_empty df = (rows df = [] \<or> columns df = [])"

text \<open>\<^verbatim>\<open>df[df[c].isin(vs)]\<close>: the rows whose cell in column c is in vs, in order.\<close>

definition df_filter_isin :: "frame \<Rightarrow> string \<Rightarrow> string set \<Rightarrow> frame" where
  "df_filter_isin df c vs = df\<lparr>rows := filter (\<lambda>r. isin (cell_at r c) vs) (rows df)\<rparr>"

text \<open>
  \<^verbatim>\<open>df[c] = v\<close> with a scalar v: the column is overwritten in place when the table has it and
  appended as the last column otherwise; every row gets the value.
\<close>

fun row_assign :: "string \<Rightarrow> cell \<Rightarrow> row \<Rightarrow> row" where
  "row_assign c v [] = [(c, v)]"
| "row_assign c v ((k, x) # r) = (if k = c then (c, v) # r else (k, x) # row_assign c v r)"

definition df_assign :: "string \<Rightarrow> string \<Rightarrow> frame \<Rightarrow> frame" where
  "df_assign c v df =
     \<lparr>columns = (if c \<in> set (columns df) then columns df else columns df @ [c]),
      rows = map (row_assign c (Str v)) (rows df)\<rparr>"

section \<open>Exceptions, effects, the environment\<close>

text \<open>
  An exception is its class and its message. Every class below derives from Python's
  \<^verbatim>\<open>Exception\<close>, so an \<^verbatim>\<open>except Exception\<close> clause catches each of them.
\<close>

datatype exc_class =
  ValueError | KeyError | FileNotFoundError | NotADirectoryError | PermissionError
  | ParserError | EmptyDataError | UnicodeDecodeError

type_synonym py_exception = "exc_class \<times> string"

text \<open>
  A sheet of the spreadsheet: its name, whether the table's index is written as a first
  column, the header and the rows. A figure: the points of the scatter plot, the points of the dashed line,
  and the labels.
\<close>

record sheet =
  sheet_name :: string
  index_written :: bool
  header :: "string list"
  body :: "row list"

record figure =
  scatter_points :: "(string \<times> nat) list"
  line_points :: "(string \<times> nat) list"
  title :: string
  xlabel :: string
  ylabel :: string

text \<open>What a call does to the outside: a printed line, a written file, a shown figure.\<close>

datatype event =
  Print string
  | ExcelFile string "sheet list"
  | ImageFile string figure
  | ShowFigure figure

text \<open>
  A call has effects and then either raises or returns: the effects up to that point, in
  order, and the outcome.
\<close>

type_synonym 'a result = "event list \<times> (py_exception + 'a)"

definition returns :: "'a \<Rightarrow> 'a result" where
  "returns x = ([], Inr x)"

definition raises :: "py_exception \<Rightarrow> 'a result" where
  "raises e = ([], Inl e)"

definition and_then :: "'a result \<Rightarrow> ('a \<Rightarrow> 'b result) \<Rightarrow> 'b result" where
  "and_then m f =
     (case m of
        (out, Inl e) \<Rightarrow> (out, Inl e)
      | (out, Inr x) \<Rightarrow> (case f x of (out', r) \<Rightarrow> (out @ out', r)))"

text \<open>
  A call that may run forever has an optional result: None is the call that never returns
  (what it printed before is not kept).
\<close>

definition and_then_opt :: "'a result option \<Rightarrow> ('a \<Rightarrow> 'b result option) \<Rightarrow> 'b result option" where
  "and_then_opt m f =
     (case m of
        None \<Rightarrow> None
      | Some (out, Inl e) \<Rightarrow> Some (out, Inl e)
      | Some (out, Inr x) \<Rightarrow>
          (case f x of None \<Rightarrow> None | Some (out', r) \<Rightarrow> Some (out @ out', r)))"

text \<open>The file system holds, at a path, nothing, a file or a directory with its entries.\<close>

datatype node = File | Dir "(string \<times> node) list"

text \<open>
  What a run of the script depends on and does not compute itself:
  the file system as path resolution (\<open>fs w p\<close> is what the path p names; permissions and
  symbolic links are not modelled),
  the outcome of \<^verbatim>\<open>pd.read_csv(p, sep='\t', comment='#', ...)\<close> on each path
  (an exception, or the parsed table),
  the order in which the interpreter iterates the set of the two required column names
  (string hashing is seeded per process),
  and the draws of the random generator: the i-th call of its \<^verbatim>\<open>randbelow(n)\<close> returns
  \<open>raw_draw w i mod n\<close>.
\<close>

record world =
  fs :: "string \<Rightarrow> node option"
  read_csv :: "string \<Rightarrow> py_exception + frame"
  hugo_first :: bool
  raw_draw :: "nat \<Rightarrow> nat"

section \<open>Library functions\<close>

text \<open>\<^verbatim>\<open>str(n)\<close> for a natural number.\<close>

function str_nat :: "nat \<Rightarrow> string" where
  "str_nat n =
     (if n < 10 then [''0123456789'' ! n]
      else str_nat (n div 10) @ [''0123456789'' ! (n mod 10)])"
  by pat_completeness auto
termination
  by (relation "measure id") auto

definition endswith :: "string \<Rightarrow> string \<Rightarrow> bool" where
  "endswith s suf = (length suf \<le> length s \<and> drop (length s - length suf) s = suf)"

text \<open>\<^verbatim>\<open>os.path.join(a, b)\<close> of posixpath.\<close>

definition path_join :: "string \<Rightarrow> string \<Rightarrow> string" where
  "path_join a b =
     (if take 1 b = ''/'' then b
      else if a = [] \<or> last a = CHR ''/'' then a @ b
      else a @ ''/'' @ b)"

definition os_path_exists :: "world \<Rightarrow> string \<Rightarrow> bool" where
  "os_path_exists w p = (fs w p \<noteq> None)"

definition os_path_isdir :: "world \<Rightarrow> string \<Rightarrow> bool" where
  "os_path_isdir w p = (case fs w p of Some (Dir es) \<Rightarrow> True | _ \<Rightarrow> False)"

definition os_listdir :: "world \<Rightarrow> string \<Rightarrow> py_exception + string list" where
  "os_listdir w p =
     (case fs w p of
        None \<Rightarrow> Inl (FileNotFoundError, ''[Errno 2] No such file or directory: '' @ p)
      | Some File \<Rightarrow> Inl (NotADirectoryError, ''[Errno 20] Not a directory: '' @ p)
      | Some (Dir es) \<Rightarrow> Inr (map fst es))"

fun is_dir :: "node \<Rightarrow> bool" where
  "is_dir File = False"
| "is_dir (Dir es) = True"

definition dirnames :: "(string \<times> node) list \<Rightarrow> string list" where
  "dirnames es = map fst (filter (\<lambda>e. is_dir (snd e)) es)"

definition filenames :: "(string \<times> node) list \<Rightarrow> string list" where
  "filenames es = map fst (filter (\<lambda>e. \<not> is_dir (snd e)) es)"

text \<open>
  \<^verbatim>\<open>os.walk(root)\<close>, top-down, with its default \<^verbatim>\<open>onerror=None\<close>: a root that cannot be
  listed yields nothing; a directory yields its own triple, then the walks of its
  subdirectories in order (an entry that is a file adds nothing).
\<close>

fun os_walk :: "string \<Rightarrow> node \<Rightarrow> (string \<times> string list \<times> string list) list" where
  "os_walk root File = []"
| "os_walk root (Dir es) =
     (root, dirnames es, filenames es)
       # concat (map (\<lambda>(n, c). os_walk (path_join root n) c) es)"

definition os_walk_path :: "world \<Rightarrow> string \<Rightarrow> (string \<times> string list \<times> string list) list" where
  "os_walk_path w root = (case fs w root of None \<Rightarrow> [] | Some n \<Rightarrow> os_walk root n)"

text \<open>
  \<^verbatim>\<open>random.sample(population, k)\<close> of CPython. After the check on k it takes one of two
  loops, by the size n of the population against \<^verbatim>\<open>setsize\<close> (21, and more only for
  k above 5, by \<^verbatim>\<open>4 ** ceil(log(k * 3, 4))\<close>, the least power of 4 that is at least
  k * 3). The state of the generator is the number of draws made so far.
\<close>

function ceil_log4 :: "nat \<Rightarrow> nat" where
  "ceil_log4 m = (if m \<le> 1 then 0 else Suc (ceil_log4 ((m + 3) div 4)))"
  by pat_completeness auto
termination
  by (relation "measure id") auto

definition setsize :: "nat \<Rightarrow> nat" where
  "setsize k = (if k > 5 then 21 + 4 ^ ceil_log4 (k * 3) else 21)"

text \<open>
  For n up to setsize, the loop over a shrinking pool: draw i takes a position below
  n - i of the pool, whose last element then fills the hole.
\<close>

fun sample_pool :: "world \<Rightarrow> nat \<Rightarrow> 'a list \<Rightarrow> nat \<Rightarrow> 'a list" where
  "sample_pool w rng pool 0 = []"
| "sample_pool w rng pool (Suc k) =
     (let j = raw_draw w rng mod length pool
      in pool ! j # sample_pool w (Suc rng) (butlast (pool[j := last pool])) k)"

text \<open>
  For a larger n, the loop over a set of selected positions: each pick draws a position
  below n and draws again while the position is already selected. The inner loop
  \<^verbatim>\<open>j = randbelow(n); while j in selected: j = randbelow(n)\<close> need not end: it returns
  the accepted position and the state of the generator, or never returns.
\<close>

partial_function (option) redraw :: "world \<Rightarrow> nat \<Rightarrow> nat \<Rightarrow> nat set \<Rightarrow> (nat \<times> nat) option" where
  "redraw w rng n selected =
     (let j = raw_draw w rng mod n in
      if j \<in> selected then redraw w (Suc rng) n selected else Some (j, Suc rng))"

declare redraw.simps [code]

fun sample_set :: "world \<Rightarrow> nat \<Rightarrow> 'a list \<Rightarrow> nat set \<Rightarrow> nat \<Rightarrow> ('a list \<times> nat) option" where
  "sample_set w rng population selected 0 = Some ([], rng)"
| "sample_set w rng population selected (Suc k) =
     (case redraw w rng (length population) selected of
        None \<Rightarrow> None
      | Some (j, rng') \<Rightarrow>
          (case sample_set w rng' population (insert j selected) k of
             None \<Rightarrow> None
           | Some (result, rng'') \<Rightarrow> Some (population ! j # result, rng'')))"

definition random_sample :: "world \<Rightarrow> nat \<Rightarrow> 'a list \<Rightarrow> nat \<Rightarrow> (py_exception + ('a list \<times> nat)) option" where
  "random_sample w rng population k =
     (let n = length population in
      if k > n
      then Some (Inl (ValueError, ''Sample larger than population or is negative''))
      else if n \<le> setsize k
      then Some (Inr (sample_pool w rng population k, rng + k))
      else (case sample_set w rng population {} k of
              None \<Rightarrow> None
            | Some r \<Rightarrow> Some (Inr r)))"

text \<open>
  \<^verbatim>\<open>pd.concat(dfs, ignore_index=True)\<close>: the columns are the union of the tables' columns in
  order of first appearance, every row is laid out on them with missing values where its
  table has no such column; an empty list of tables is an error.
\<close>

definition union_columns :: "string list list \<Rightarrow> string list" where
  "union_columns css = rev (remdups (rev (concat css)))"

definition reindex_row :: "string list \<Rightarrow> row \<Rightarrow> row" where
  "reindex_row cols r = map (\<lambda>c. (c, cell_at r c)) cols"

definition pd_concat :: "frame list \<Rightarrow> py_exception + frame" where
  "pd_concat dfs =
     (if dfs = [] then Inl (ValueError, ''No objects to concatenate'')
      else Inr \<lparr>columns = union_columns (map columns dfs),
                rows = concat (map (\<lambda>df. map (reindex_row (union_columns (map columns dfs)))
                                            (rows df)) dfs)\<rparr>)"

text \<open>
  \<^verbatim>\<open>df.groupby(c)\<close>: one group per distinct value of column c that is not missing, the
  keys sorted, each group with its rows in table order; a table without the column is a
  KeyError.
\<close>

fun str_values :: "cell list \<Rightarrow> string list" where
  "str_values [] = []"
| "str_values (NaN # cs) = str_values cs"
| "str_values (Str s # cs) = s # str_values cs"

definition group_keys :: "frame \<Rightarrow> string \<Rightarrow> string list" where
  "group_keys df c = sort (remdups (str_values (map (\<lambda>r. cell_at r c) (rows df))))"

definition groupby :: "frame \<Rightarrow> string \<Rightarrow> py_exception + (string \<times> frame) list" where
  "groupby df c =
     (if c \<notin> set (columns df) then Inl (KeyError, c)
      else Inr (map (\<lambda>k. (k, df\<lparr>rows := filter (\<lambda>r. cell_at r c = Str k) (rows df)\<rparr>))
                  (group_keys df c)))"

text \<open>
  \<^verbatim>\<open>stage_df.to_excel(writer, sheet_name=..., index=...)\<close>; the writer's limits on the size
  of a sheet and on the characters of its name are not modelled.
\<close>

definition to_excel :: "frame \<Rightarrow> string \<Rightarrow> bool \<Rightarrow> sheet" where
  "to_excel df name index =
     \<lparr>sheet_name = name,
      index_written = index,
      header = columns df,
      body = rows df\<rparr>"

section \<open>Constants of the script\<close>

definition BASE_FOLDER :: string where
  "BASE_FOLDER = ''./grade_generalised''"

definition stages :: "string list" where
  "stages = [''StageI'', ''StageII'', ''StageIII'', ''StageIV'']"

definition samples_per_stage :: nat where
  "samples_per_stage = 4"

definition CODING_VARIANTS :: "string set" where
  "CODING_VARIANTS =
     {''Missense_Mutation'', ''Nonsense_Mutation'',
      ''Frame_Shift_Ins'', ''Frame_Shift_Del'', ''Splice_Site'',
      ''Translation_Start_Site'', ''In_Frame_Del'', ''In_Frame_Ins''}"

section \<open>find_maf_files\<close>

definition find_maf_files :: "world \<Rightarrow> string \<Rightarrow> string list" where
  "find_maf_files w directory =
     concat (map (\<lambda>(root, _, files).
                    map (path_join root) (filter (\<lambda>f. endswith f ''.maf'') files))
                 (os_walk_path w directory))"

section \<open>read_maf_file\<close>

definition required_columns :: "string set" where
  "required_columns = {''Hugo_Symbol'', ''Variant_Classification''}"

text \<open>The text an f-string gives for the set of required columns, in iteration order.\<close>

definition required_columns_str :: "world \<Rightarrow> string" where
  "required_columns_str w =
     (if hugo_first w then ''{'Hugo_Symbol', 'Variant_Classification'}''
      else ''{'Variant_Classification', 'Hugo_Symbol'}'')"

text \<open>The body of the \<^verbatim>\<open>try\<close> block.\<close>

definition read_maf_try :: "world \<Rightarrow> string \<Rightarrow> (frame option) result" where
  "read_maf_try w maf_path =
     (case read_csv w maf_path of
        Inl e \<Rightarrow> raises e
      | Inr maf_df \<Rightarrow>
          if \<not> required_columns \<subseteq> set (columns maf_df)
          then ([Print (''Skipping '' @ maf_path @ '': Missing required columns ''
                          @ required_columns_str w)], Inr None)
          else
            let maf_df = df_filter_isin maf_df ''Variant_Classification'' CODING_VARIANTS
            in returns (if \<not> df_empty maf_df then Some maf_df else None))"

text \<open>The whole function: \<^verbatim>\<open>except Exception as e\<close> prints and returns None.\<close>

definition read_maf_file :: "world \<Rightarrow> string \<Rightarrow> (frame option) result" where
  "read_maf_file w maf_path =
     (case read_maf_try w maf_path of
        (out, Inl e) \<Rightarrow>
          (out @ [Print (''Skipping '' @ maf_path @ '' due to error: '' @ snd e)], Inr None)
      | (out, Inr r) \<Rightarrow> (out, Inr r))"

section \<open>get_sample_mutation_data\<close>

text \<open>The inner loop: the files of one case.\<close>

fun read_case_files :: "world \<Rightarrow> string \<Rightarrow> string \<Rightarrow> string list \<Rightarrow> (frame list) result" where
  "read_case_files w case_id stage [] = returns []"
| "read_case_files w case_id stage (maf_file # maf_files) =
     and_then (read_maf_file w maf_file) (\<lambda>maf_df.
     and_then (read_case_files w case_id stage maf_files) (\<lambda>more.
       returns (case maf_df of
                  None \<Rightarrow> more
                | Some df \<Rightarrow> df_assign ''Stage'' stage (df_assign ''Case'' case_id df) # more)))"

text \<open>The outer loop: the selected cases.\<close>

fun read_cases :: "world \<Rightarrow> string \<Rightarrow> string \<Rightarrow> string list \<Rightarrow> (frame list) result" where
  "read_cases w stage_dir stage [] = returns []"
| "read_cases w stage_dir stage (case_id # selected_cases) =
     and_then (read_case_files w case_id stage (find_maf_files w (path_join stage_dir case_id)))
       (\<lambda>mutation_data.
     and_then (read_cases w stage_dir stage selected_cases) (\<lambda>more.
       returns (mutation_data @ more)))"

definition case_folders_of :: "world \<Rightarrow> string \<Rightarrow> string list \<Rightarrow> string list" where
  "case_folders_of w stage_dir names =
     filter (\<lambda>f. os_path_isdir w (path_join stage_dir f)) names"

definition few_samples_warning :: "nat \<Rightarrow> string \<Rightarrow> string" where
  "few_samples_warning n stage_dir =
     ''Warning: Only '' @ str_nat n @ '' samples found in '' @ stage_dir @ '', but ''
       @ str_nat samples_per_stage @ '' required.''"

text \<open>
  The function returns its list of tables; the model returns the generator's state too.
  It never returns when the selection does not.
\<close>

definition get_sample_mutation_data :: "world \<Rightarrow> nat \<Rightarrow> string \<Rightarrow> (frame list \<times> nat) result option" where
  "get_sample_mutation_data w rng stage =
     (let stage_dir = path_join BASE_FOLDER stage in
      if \<not> os_path_exists w stage_dir
      then Some ([Print (''Warning: '' @ stage_dir @ '' does not exist.'')], Inr ([], rng))
      else
        case os_listdir w stage_dir of
          Inl e \<Rightarrow> Some (raises e)
        | Inr names \<Rightarrow>
            let case_folders = case_folders_of w stage_dir names in
            and_then_opt
              (Some (if length case_folders < samples_per_stage
                     then ([Print (few_samples_warning (length case_folders) stage_dir)], Inr ())
                     else returns ())) (\<lambda>_.
            case random_sample w rng case_folders
                   (min samples_per_stage (length case_folders)) of
              None \<Rightarrow> None
            | Some (Inl e) \<Rightarrow> Some (raises e)
            | Some (Inr (selected_cases, rng')) \<Rightarrow>
                Some (and_then (read_cases w stage_dir stage selected_cases) (\<lambda>mutation_data.
                        returns (mutation_data, rng')))))"

section \<open>save_to_excel and visualize_mutation_cnv\<close>

fun write_sheets :: "(string \<times> frame) list \<Rightarrow> (sheet list) result" where
  "write_sheets [] = returns []"
| "write_sheets ((stage, stage_df) # groups) =
     and_then ([Print (''Saved '' @ str_nat (length (rows stage_df))
                         @ '' records to sheet: '' @ stage)],
               Inr (to_excel stage_df stage False)) (\<lambda>sh.
     and_then (write_sheets groups) (\<lambda>more. returns (sh # more)))"

text \<open>
  The file is written when the writer is closed, after the loop. A table without a Stage
  column makes the grouping raise inside the writer's block; what the closing writer then
  leaves on disk is not modelled.
\<close>

definition save_to_excel :: "frame \<Rightarrow> string \<Rightarrow> unit result" where
  "save_to_excel df output_file =
     (case groupby df ''Stage'' of
        Inl e \<Rightarrow> raises e
      | Inr groups \<Rightarrow>
          and_then (write_sheets groups) (\<lambda>sheets.
            ([ExcelFile output_file sheets], Inr ())))"

definition visualize_mutation_cnv :: "frame \<Rightarrow> unit result" where
  "visualize_mutation_cnv df =
     (if ''Variant_Classification'' \<notin> set (columns df) \<or> ''Stage'' \<notin> set (columns df)
      then raises (ValueError,
             ''The dataset must have 'Variant_Classification' and 'Stage' columns.'')
      else
        case groupby df ''Stage'' of
          Inl e \<Rightarrow> raises e
        | Inr groups \<Rightarrow>
            let mutation_counts = map (\<lambda>(k, g). (k, length (rows g))) groups;
                fig = \<lparr>scatter_points = mutation_counts,
                       line_points = mutation_counts,
                       title = ''Mutation Frequency by Stage'',
                       xlabel = ''Stage'',
                       ylabel = ''Number of Mutations''\<rparr>
            in ([ImageFile ''mutation_frequency_scatter_filtered.png'' fig, ShowFigure fig],
                Inr ()))"

section \<open>main\<close>

text \<open>The loop over the stages.\<close>

fun collect_stages :: "world \<Rightarrow> nat \<Rightarrow> string list \<Rightarrow> (frame list \<times> nat) result option" where
  "collect_stages w rng [] = Some (returns ([], rng))"
| "collect_stages w rng (stage # rest) =
     and_then_opt (get_sample_mutation_data w rng stage) (\<lambda>(mutation_data, rng').
     and_then_opt (collect_stages w rng' rest) (\<lambda>(more, rng'').
       Some (returns (mutation_data @ more, rng''))))"

text \<open>
  The script's main returns nothing; the model returns its local \<^verbatim>\<open>combined_df\<close>, or None
  when the table is never built.
\<close>

definition main :: "world \<Rightarrow> nat \<Rightarrow> (frame option) result option" where
  "main w rng =
     and_then_opt (collect_stages w rng stages) (\<lambda>(all_mutation_data, _).
       Some
        (if all_mutation_data \<noteq> []
         then
           (case pd_concat all_mutation_data of
              Inl e \<Rightarrow> raises e
            | Inr combined_df \<Rightarrow>
                and_then (save_to_excel combined_df ''mutation_cnv_filtered.xlsx'') (\<lambda>_.
                and_then (visualize_mutation_cnv combined_df) (\<lambda>_.
                  returns (Some combined_df))))
         else ([Print ''No coding mutation data collected! Ensure MAF files exist.''],
               Inr None)))"

section \<open>Vocabulary of the properties\<close>

text \<open>A text occurs in another one as a contiguous part.\<close>

fun occurs_in :: "string \<Rightarrow> string \<Rightarrow> bool" where
  "occurs_in s [] = (s = [])"
| "occurs_in s (x # xs) = (take (length s) (x # xs) = s \<or> occurs_in s xs)"

text \<open>A column name as Python prints it inside a set: in single quotes.\<close>

definition quoted :: "string \<Rightarrow> string" where
  "quoted c = [CHR 0x27] @ c @ [CHR 0x27]"



text \<open>The local \<^verbatim>\<open>case_folders\<close> of get_sample_mutation_data; none when it is not reached.\<close>

definition case_folders :: "world \<Rightarrow> string \<Rightarrow> string list" where
  "case_folders w stage =
     (case fs w (path_join BASE_FOLDER stage) of
        Some (Dir es) \<Rightarrow> case_folders_of w (path_join BASE_FOLDER stage) (map fst es)
      | _ \<Rightarrow> [])"

text \<open>
  The selection of get_sample_mutation_data: its local \<^verbatim>\<open>selected_cases\<close> and the state
  of the generator after the sample is drawn; None when the sampling never returns, and
  no case, with the generator untouched, when the function does not reach the sampling.
\<close>

definition selection :: "world \<Rightarrow> nat \<Rightarrow> string \<Rightarrow> (string list \<times> nat) option" where
  "selection w rng stage =
     (case fs w (path_join BASE_FOLDER stage) of
        Some (Dir es) \<Rightarrow>
          (case random_sample w rng (case_folders w stage)
                  (min samples_per_stage (length (case_folders w stage))) of
             None \<Rightarrow> None
           | Some (Inl e) \<Rightarrow> Some ([], rng)
           | Some (Inr r) \<Rightarrow> Some r)
      | _ \<Rightarrow> Some ([], rng))"

text \<open>What a call has printed when it returns.\<close>

definition printed :: "'a result option \<Rightarrow> event list" where
  "printed r = (case r of None \<Rightarrow> [] | Some (out, _) \<Rightarrow> out)"

definition selected_cases :: "world \<Rightarrow> nat \<Rightarrow> string \<Rightarrow> string list" where
  "selected_cases w rng stage =
     (case selection w rng stage of Some (cases, _) \<Rightarrow> cases | None \<Rightarrow> [])"

definition rng_after :: "world \<Rightarrow> nat \<Rightarrow> string \<Rightarrow> nat" where
  "rng_after w rng stage =
     (case selection w rng stage of Some (_, rng') \<Rightarrow> rng' | None \<Rightarrow> rng)"

text \<open>The table read_maf_file returns for a path, if it returns one.\<close>

definition kept_table :: "world \<Rightarrow> string \<Rightarrow> frame option" where
  "kept_table w p = (case snd (read_maf_file w p) of Inr (Some df) \<Rightarrow> Some df | _ \<Rightarrow> None)"

text \<open>A table stamped with its case and its stage, as the inner loop appends it.\<close>

definition stamp :: "string \<Rightarrow> string \<Rightarrow> frame \<Rightarrow> frame" where
  "stamp case_id stage df = df_assign ''Stage'' stage (df_assign ''Case'' case_id df)"

text \<open>The files found under a case, and the stamped tables they give, in order.\<close>

definition case_files :: "world \<Rightarrow> string \<Rightarrow> string \<Rightarrow> string list" where
  "case_files w stage case_id =
     find_maf_files w (path_join (path_join BASE_FOLDER stage) case_id)"

definition case_tables :: "world \<Rightarrow> string \<Rightarrow> string \<Rightarrow> frame list" where
  "case_tables w stage case_id =
     map (stamp case_id stage) (List.map_filter (kept_table w) (case_files w stage case_id))"

definition stage_tables :: "world \<Rightarrow> nat \<Rightarrow> string \<Rightarrow> frame list" where
  "stage_tables w rng stage = concat (map (case_tables w stage) (selected_cases w rng stage))"

text \<open>A printed line that starts with "Skipping ": what read_maf_file prints.\<close>

fun is_skip_line :: "event \<Rightarrow> bool" where
  "is_skip_line (Print m) = (take 9 m = ''Skipping '')"
| "is_skip_line _ = False"

text \<open>The invariant of a row of the combined table.\<close>

definition row_invariant :: "row \<Rightarrow> bool" where
  "row_invariant r =
     (notna (cell_at r ''Case'') \<and> notna (cell_at r ''Stage'')
      \<and> isin (cell_at r ''Variant_Classification'') CODING_VARIANTS)"

text \<open>The tables main collects over the stages, the generator's state passed along.\<close>

fun run_tables :: "world \<Rightarrow> nat \<Rightarrow> string list \<Rightarrow> frame list" where
  "run_tables w rng [] = []"
| "run_tables w rng (stage # rest) =
     stage_tables w rng stage
       @ run_tables w (rng_after w rng stage) rest"

text \<open>The files read over the stages, in the same order.\<close>

fun run_files :: "world \<Rightarrow> nat \<Rightarrow> string list \<Rightarrow> string list" where
  "run_files w rng [] = []"
| "run_files w rng (stage # rest) =
     concat (map (case_files w stage) (selected_cases w rng stage))
       @ run_files w (rng_after w rng stage) rest"

text \<open>The number of rows read_maf_file returns for a path: none when it returns None.\<close>

definition filtered_row_count :: "world \<Rightarrow> string \<Rightarrow> nat" where
  "filtered_row_count w p = (case kept_table w p of Some df \<Rightarrow> length (rows df) | None \<Rightarrow> 0)"

text \<open>The spreadsheet files among the effects of a run.\<close>

fun excel_files :: "event list \<Rightarrow> (string \<times> sheet list) list" where
  "excel_files [] = []"
| "excel_files (ExcelFile f sheets # es) = (f, sheets) # excel_files es"
| "excel_files (e # es) = excel_files es"

text \<open>The stage labels present in a table, and the rows of one stage.\<close>

definition stage_labels :: "frame \<Rightarrow> string set" where
  "stage_labels df = {s. \<exists>r \<in> set (rows df). cell_at r ''Stage'' = Str s}"

definition stage_rows :: "frame \<Rightarrow> string \<Rightarrow> row list" where
  "stage_rows df s = filter (\<lambda>r. cell_at r ''Stage'' = Str s) (rows df)"

text \<open>What holds of every table a stage appends.\<close>

definition stamped :: "string \<Rightarrow> frame \<Rightarrow> bool" where
  "stamped stage df =
     (rows df \<noteq> []
      \<and> {''Variant_Classification'', ''Case'', ''Stage''} \<subseteq> set (columns df)
      \<and> (\<forall>r \<in> set (rows df). row_invariant r \<and> cell_at r ''Stage'' = Str stage))"

section \<open>An example run\<close>

text \<open>
  Stage I holds two cases and a stray file; case TCGA-A has one file with coding variants
  and, one level down, one without the classification column; case TCGA-B has one file
  with no coding variant and one that cannot be parsed. Stage II does not exist, stage III
  is an empty directory, stage IV holds five cases, of which only P3 has a file.
\<close>

definition maf_a :: frame where
  "maf_a =
     \<lparr>columns = [''Hugo_Symbol'', ''Variant_Classification''],
      rows = [[(''Hugo_Symbol'', Str ''TP53''), (''Variant_Classification'', Str ''Missense_Mutation'')],
              [(''Hugo_Symbol'', Str ''KRAS''), (''Variant_Classification'', Str ''Silent'')],
              [(''Hugo_Symbol'', Str ''EGFR''), (''Variant_Classification'', Str ''Nonsense_Mutation'')]]\<rparr>"

definition maf_b :: frame where
  "maf_b =
     \<lparr>columns = [''Hugo_Symbol'', ''Chromosome''],
      rows = [[(''Hugo_Symbol'', Str ''TP53''), (''Chromosome'', Str ''17'')]]\<rparr>"

definition maf_c :: frame where
  "maf_c =
     \<lparr>columns = [''Hugo_Symbol'', ''Variant_Classification'', ''Case''],
      rows = [[(''Hugo_Symbol'', Str ''TTN''), (''Variant_Classification'', Str ''Silent''), (''Case'', NaN)],
              [(''Hugo_Symbol'', Str ''MUC16''), (''Variant_Classification'', NaN), (''Case'', Str ''x'')]]\<rparr>"

definition maf_e :: frame where
  "maf_e =
     \<lparr>columns = [''Hugo_Symbol'', ''Variant_Classification'', ''Tumor_Sample_Barcode''],
      rows = [[(''Hugo_Symbol'', Str ''PIK3CA''), (''Variant_Classification'', Str ''Splice_Site''),
               (''Tumor_Sample_Barcode'', Str ''TCGA-P3-01A'')]]\<rparr>"

definition case_a :: node where
  "case_a = Dir [(''a.maf'', File), (''sub'', Dir [(''b.maf'', File), (''notes.txt'', File)])]"

definition case_b :: node where
  "case_b = Dir [(''c.maf'', File), (''d.maf'', File)]"

definition case_p3 :: node where
  "case_p3 = Dir [(''e.maf'', File)]"

definition stage_iv :: node where
  "stage_iv =
     Dir [(''P1'', Dir []), (''P2'', Dir []), (''P3'', case_p3), (''P4'', Dir []), (''P5'', Dir [])]"

definition example_fs :: "string \<Rightarrow> node option" where
  "example_fs p =
     (if p = ''./grade_generalised/StageI''
        then Some (Dir [(''TCGA-A'', case_a), (''README'', File), (''TCGA-B'', case_b)])
      else if p = ''./grade_generalised/StageI/TCGA-A'' then Some case_a
      else if p = ''./grade_generalised/StageI/TCGA-B'' then Some case_b
      else if p = ''./grade_generalised/StageI/README'' then Some File
      else if p = ''./grade_generalised/StageIII'' then Some (Dir [])
      else if p = ''./grade_generalised/StageIV'' then Some stage_iv
      else if p = ''./grade_generalised/StageIV/P3'' then Some case_p3
      else if p \<in> {''./grade_generalised/StageIV/P1'', ''./grade_generalised/StageIV/P2'',
                    ''./grade_generalised/StageIV/P4'', ''./grade_generalised/StageIV/P5''}
        then Some (Dir [])
      else None)"

definition example_read_csv :: "string \<Rightarrow> py_exception + frame" where
  "example_read_csv p =
     (if p = ''./grade_generalised/StageI/TCGA-A/a.maf'' then Inr maf_a
      else if p = ''./grade_generalised/StageI/TCGA-A/sub/b.maf'' then Inr maf_b
      else if p = ''./grade_generalised/StageI/TCGA-B/c.maf'' then Inr maf_c
      else if p = ''./grade_generalised/StageI/TCGA-B/d.maf''
        then Inl (EmptyDataError, ''No columns to parse from file'')
      else if p = ''./grade_generalised/StageIV/P3/e.maf'' then Inr maf_e
      else Inl (FileNotFoundError, ''[Errno 2] No such file or directory''))"

definition example_world :: world where
  "example_world =
     \<lparr>fs = example_fs, read_csv = example_read_csv, hugo_first = True, raw_draw = (\<lambda>i. i)\<rparr>"

text \<open>The combined table of the example run.\<close>

definition example_combined :: frame where
  "example_combined =
     \<lparr>columns = [''Hugo_Symbol'', ''Variant_Classification'', ''Case'', ''Stage'',
                 ''Tumor_Sample_Barcode''],
      rows = [[(''Hugo_Symbol'', Str ''TP53''), (''Variant_Classification'', Str ''Missense_Mutation''),
               (''Case'', Str ''TCGA-A''), (''Stage'', Str ''StageI''),
               (''Tumor_Sample_Barcode'', NaN)],
              [(''Hugo_Symbol'', Str ''EGFR''), (''Variant_Classification'', Str ''Nonsense_Mutation''),
               (''Case'', Str ''TCGA-A''), (''Stage'', Str ''StageI''),
               (''Tumor_Sample_Barcode'', NaN)],
              [(''Hugo_Symbol'', Str ''PIK3CA''), (''Variant_Classification'', Str ''Splice_Site''),
               (''Case'', Str ''P3''), (''Stage'', Str ''StageIV''),
               (''Tumor_Sample_Barcode'', Str ''TCGA-P3-01A'')]]\<rparr>"

text \<open>A run with no input at all: the base folder does not exist.\<close>

definition empty_world :: world where
  "empty_world =
     \<lparr>fs = (\<lambda>p. None),
      read_csv = (\<lambda>p. Inl (FileNotFoundError, ''[Errno 2] No such file or directory'')),
      hugo_first = True, raw_draw = (\<lambda>i. 0)\<rparr>"

text \<open>A stage with twenty-two cases, all empty; the generator draws 0, 0, 1, 2, 3, ...\<close>

definition crowd :: "string list" where
  "crowd =
     [''C00'', ''C01'', ''C02'', ''C03'', ''C04'', ''C05'', ''C06'', ''C07'', ''C08'', ''C09'',
      ''C10'', ''C11'', ''C12'', ''C13'', ''C14'', ''C15'', ''C16'', ''C17'', ''C18'', ''C19'',
      ''C20'', ''C21'']"

definition crowded_world :: world where
  "crowded_world =
     \<lparr>fs = (\<lambda>p. if p = ''./grade_generalised/StageI''
                  then Some (Dir (map (\<lambda>n. (n, Dir [])) crowd))
                else if p \<in> set (map (\<lambda>n. ''./grade_generalised/StageI/'' @ n) crowd)
                  then Some (Dir [])
                else None),
      read_csv = (\<lambda>p. Inl (FileNotFoundError, ''[Errno 2] No such file or directory'')),
      hugo_first = True, raw_draw = (\<lambda>i. i - 1)\<rparr>"

section \<open>Properties of read_maf_file\<close>

lemma read_maf_file_cases:
  "read_maf_file w p =
     (case read_csv w p of
        Inl e \<Rightarrow> ([Print (''Skipping '' @ p @ '' due to error: '' @ snd e)], Inr None)
      | Inr df \<Rightarrow>
          if \<not> required_columns \<subseteq> set (columns df)
          then ([Print (''Skipping '' @ p @ '': Missing required columns ''
                          @ required_columns_str w)], Inr None)
          else ([], Inr (if \<not> df_empty (df_filter_isin df ''Variant_Classification'' CODING_VARIANTS)
                         then Some (df_filter_isin df ''Variant_Classification'' CODING_VARIANTS)
                         else None)))"
  by (simp add: read_maf_file_def read_maf_try_def returns_def raises_def Let_def
      split: sum.splits)

lemma names_required:
  "c \<in> required_columns \<Longrightarrow> occurs_in (quoted c) (required_columns_str w)"
  by (auto simp: required_columns_def required_columns_str_def quoted_def)

lemma example_read_b:
  "read_csv example_world ''./grade_generalised/StageI/TCGA-A/sub/b.maf'' = Inr maf_b"
  by (simp add: example_world_def example_read_csv_def)

lemma example_read_c:
  "read_csv example_world ''./grade_generalised/StageI/TCGA-B/c.maf'' = Inr maf_c"
  by (simp add: example_world_def example_read_csv_def)


text \<open>
  C6: a file that parses to a table with both required columns, none of whose cells in
  Variant_Classification is in the coding-variant allow-list (a missing cell is not),
  makes read_maf_file return None; nothing is printed.
\<close>

theorem read_maf_file_only_noncoding:
  assumes "read_csv w p = Inr df"
    and "required_columns \<subseteq> set (columns df)"
    and "\<forall>r \<in> set (rows df). \<not> isin (cell_at r ''Variant_Classification'') CODING_VARIANTS"
  shows "read_maf_file w p = ([], Inr None)"
  using assms
  by (simp add: read_maf_file_cases df_empty_def df_filter_isin_def filter_empty_conv)

theorem read_maf_file_only_noncoding_witness:
  "read_maf_file example_world ''./grade_generalised/StageI/TCGA-B/c.maf'' = ([], Inr None)"
proof (rule read_maf_file_only_noncoding [OF example_read_c])
  show "required_columns \<subseteq> set (columns maf_c)"
    by (simp add: required_columns_def maf_c_def)
  show "\<forall>r \<in> set (rows maf_c). \<not> isin (cell_at r ''Variant_Classification'') CODING_VARIANTS"
    by (simp add: maf_c_def cell_at_def CODING_VARIANTS_def)
qed

text \<open>
  C7: a file that parses to a table lacking Hugo_Symbol or Variant_Classification (or both)
  makes read_maf_file return None and print one skip message, which carries the path and the
  printed set of the required columns; every missing column is named in it.
\<close>

theorem read_maf_file_missing_columns:
  assumes "read_csv w p = Inr df"
    and "\<not> required_columns \<subseteq> set (columns df)"
  shows "read_maf_file w p =
           ([Print (''Skipping '' @ p @ '': Missing required columns ''
                      @ required_columns_str w)], Inr None)
         \<and> (\<forall>c \<in> required_columns - set (columns df).
               occurs_in (quoted c) (required_columns_str w))"
  using assms by (simp add: read_maf_file_cases names_required)

theorem read_maf_file_missing_columns_witness:
  "read_maf_file example_world ''./grade_generalised/StageI/TCGA-A/sub/b.maf'' =
     ([Print ''Skipping ./grade_generalised/StageI/TCGA-A/sub/b.maf: Missing required columns {'Hugo_Symbol', 'Variant_Classification'}''],
      Inr None)
   \<and> occurs_in (quoted ''Variant_Classification'') (required_columns_str example_world)"
proof -
  have miss: "\<not> required_columns \<subseteq> set (columns maf_b)"
    by (simp add: required_columns_def maf_b_def)
  have "required_columns - set (columns maf_b) = {''Variant_Classification''}"
    by (auto simp: required_columns_def maf_b_def)
  with read_maf_file_missing_columns [OF example_read_b miss] show ?thesis
    by (simp add: required_columns_str_def example_world_def)
qed



section \<open>Properties of find_maf_files\<close>











lemma example_find_b:
  "find_maf_files example_world ''./grade_generalised/StageI/TCGA-B'' =
     [''./grade_generalised/StageI/TCGA-B/c.maf'', ''./grade_generalised/StageI/TCGA-B/d.maf'']"
  by (simp add: find_maf_files_def os_walk_path_def example_world_def example_fs_def case_b_def
      path_join_def endswith_def filenames_def dirnames_def)


section \<open>Properties of the selection of cases\<close>

lemma length_sample_pool: "length (sample_pool w rng pool k) = k"
  by (induction k arbitrary: rng pool) (simp_all add: Let_def)

lemma mset_pool_step:
  assumes "j < length pool"
  shows "mset (butlast (pool[j := last pool])) = mset pool - {#pool ! j#}"
proof -
  from assms have "pool \<noteq> []" by auto
  then obtain xs l where pool: "pool = xs @ [l]"
    by (metis append_butlast_last_id)
  show ?thesis
  proof (cases "j < length xs")
    case True
    then have "butlast (pool[j := last pool]) = xs[j := l]"
      by (simp add: pool list_update_append1)
    moreover have "mset (xs[j := l]) = add_mset l (mset xs - {#xs ! j#})"
      using True by (simp add: mset_update)
    moreover have "pool ! j = xs ! j" using True by (simp add: pool nth_append)
    moreover have "xs ! j \<in># mset xs" using True by simp
    ultimately show ?thesis by (simp add: pool)
  next
    case False
    with assms have "j = length xs" by (simp add: pool)
    then show ?thesis by (simp add: pool)
  qed
qed

lemma length_pool_step:
  "j < length pool \<Longrightarrow> length (butlast (pool[j := last pool])) = length pool - 1"
  by simp

lemma mset_sample_pool:
  "k \<le> length pool \<Longrightarrow> mset (sample_pool w rng pool k) \<subseteq># mset pool"
proof (induction k arbitrary: rng pool)
  case 0
  then show ?case by simp
next
  case (Suc k)
  define j where "j = raw_draw w rng mod length pool"
  from Suc.prems have pos: "0 < length pool" by auto
  then have j: "j < length pool" by (simp add: j_def)
  let ?pool' = "butlast (pool[j := last pool])"
  have "k \<le> length ?pool'" using Suc.prems j by simp
  then have "mset (sample_pool w (Suc rng) ?pool' k) \<subseteq># mset ?pool'" by (rule Suc.IH)
  then have "mset (sample_pool w (Suc rng) ?pool' k) \<subseteq># mset pool - {#pool ! j#}"
    by (simp add: mset_pool_step [OF j])
  moreover have "pool ! j \<in># mset pool" using j by simp
  ultimately have "add_mset (pool ! j) (mset (sample_pool w (Suc rng) ?pool' k)) \<subseteq># mset pool"
    by (metis insert_DiffM mset_subset_eq_add_mset_cancel)
  then show ?case by (simp add: Let_def j_def)
qed

lemma distinct_sample_pool:
  assumes "k \<le> length pool" "distinct pool"
  shows "distinct (sample_pool w rng pool k)"
proof -
  have "mset (sample_pool w rng pool k) \<subseteq># mset pool" using assms(1) by (rule mset_sample_pool)
  then have "count (mset (sample_pool w rng pool k)) x \<le> count (mset pool) x" for x
    by (rule mset_subset_eq_count)
  moreover have "count (mset pool) x \<le> 1" for x
    using assms(2) by (simp add: distinct_count_atmost_1)
  ultimately have "count (mset (sample_pool w rng pool k)) x \<le> 1" for x
    using order_trans by blast
  then show ?thesis by (simp add: distinct_count_atmost_1 le_Suc_eq)
qed

lemma set_sample_pool:
  "k \<le> length pool \<Longrightarrow> set (sample_pool w rng pool k) \<subseteq> set pool"
  using mset_sample_pool [of k pool w rng] set_mset_mono by fastforce

lemma sample_pool_all:
  assumes "k = length pool"
  shows "mset (sample_pool w rng pool k) = mset pool"
proof -
  have "mset (sample_pool w rng pool k) \<subseteq># mset pool" using assms by (simp add: mset_sample_pool)
  moreover have "size (mset (sample_pool w rng pool k)) = size (mset pool)"
    using assms by (simp add: length_sample_pool)
  ultimately show ?thesis by (metis mset_subset_size subset_mset.le_neq_trans less_irrefl)
qed

lemma distinct_pool_step:
  assumes "j < length pool" "distinct pool"
  shows "distinct (butlast (pool[j := last pool]))"
    and "set (butlast (pool[j := last pool])) = set pool - {pool ! j}"
proof -
  have m: "mset (butlast (pool[j := last pool])) = mset (remove1 (pool ! j) pool)"
    using assms(1) by (simp add: mset_pool_step)
  have "distinct (remove1 (pool ! j) pool)" using assms(2) by simp
  with m show "distinct (butlast (pool[j := last pool]))"
    by (metis mset_eq_imp_distinct_iff)
  have "set (butlast (pool[j := last pool])) = set (remove1 (pool ! j) pool)"
    using m by (rule mset_eq_setD)
  then show "set (butlast (pool[j := last pool])) = set pool - {pool ! j}"
    using assms(2) by simp
qed

lemma sample_pool_cong:
  "(\<And>i. rng \<le> i \<Longrightarrow> i < rng + k \<Longrightarrow> raw_draw w i = raw_draw w' i) \<Longrightarrow>
     sample_pool w rng pool k = sample_pool w' rng pool k"
proof (induction k arbitrary: rng pool)
  case 0
  show ?case by simp
next
  case (Suc k)
  have "raw_draw w rng = raw_draw w' rng" using Suc.prems [of rng] by simp
  moreover have "sample_pool w (Suc rng) p k = sample_pool w' (Suc rng) p k"
    for p :: "'a list"
  proof (rule Suc.IH)
    fix i assume "Suc rng \<le> i" "i < Suc rng + k"
    then show "raw_draw w i = raw_draw w' i" using Suc.prems [of i] by simp
  qed
  ultimately show ?case by (simp add: Let_def)
qed

lemma sample_pool_onto:
  "distinct pool \<Longrightarrow> distinct xs \<Longrightarrow> set xs \<subseteq> set pool \<Longrightarrow>
     \<exists>d. sample_pool (w\<lparr>raw_draw := d\<rparr>) rng pool (length xs) = xs"
proof (induction xs arbitrary: rng pool)
  case Nil
  show ?case by simp
next
  case (Cons x xs)
  from Cons.prems obtain j where j: "j < length pool" "pool ! j = x"
    by (auto simp: in_set_conv_nth)
  let ?pool' = "butlast (pool[j := last pool])"
  have "distinct ?pool'" and sp: "set ?pool' = set pool - {x}"
    using distinct_pool_step [OF j(1) Cons.prems(1)] j(2) by auto
  moreover have "distinct xs" "set xs \<subseteq> set pool - {x}"
    using Cons.prems by auto
  ultimately obtain d where d: "sample_pool (w\<lparr>raw_draw := d\<rparr>) (Suc rng) ?pool' (length xs) = xs"
    using Cons.IH [of ?pool' "Suc rng"] by auto
  let ?d = "d(rng := j)"
  have "sample_pool (w\<lparr>raw_draw := ?d\<rparr>) (Suc rng) ?pool' (length xs)
        = sample_pool (w\<lparr>raw_draw := d\<rparr>) (Suc rng) ?pool' (length xs)"
    by (rule sample_pool_cong) simp
  with d j have "sample_pool (w\<lparr>raw_draw := ?d\<rparr>) rng pool (length (x # xs)) = x # xs"
    by (simp add: Let_def)
  then show ?case by blast
qed

lemma sample_pool_inj:
  "distinct pool \<Longrightarrow> k \<le> length pool \<Longrightarrow>
   sample_pool w rng pool k = sample_pool w' rng pool k \<Longrightarrow> i < k \<Longrightarrow>
     raw_draw w (rng + i) mod (length pool - i) = raw_draw w' (rng + i) mod (length pool - i)"
proof (induction k arbitrary: rng pool i)
  case 0
  then show ?case by simp
next
  case (Suc k)
  let ?j = "raw_draw w rng mod length pool"
  let ?j' = "raw_draw w' rng mod length pool"
  from Suc.prems(2) have pos: "0 < length pool" by auto
  then have j: "?j < length pool" "?j' < length pool" by simp_all
  from Suc.prems(3) have hd: "pool ! ?j = pool ! ?j'"
    and tl: "sample_pool w (Suc rng) (butlast (pool[?j := last pool])) k
           = sample_pool w' (Suc rng) (butlast (pool[?j' := last pool])) k"
    by (simp_all add: Let_def)
  from hd j Suc.prems(1) have eq: "?j = ?j'" by (simp add: nth_eq_iff_index_eq)
  show ?case
  proof (cases i)
    case 0
    with eq show ?thesis by simp
  next
    case (Suc i')
    let ?pool' = "butlast (pool[?j := last pool])"
    have "raw_draw w (Suc rng + i') mod (length ?pool' - i')
        = raw_draw w' (Suc rng + i') mod (length ?pool' - i')"
    proof (rule Suc.IH)
      show "distinct ?pool'" using distinct_pool_step(1) [OF j(1) Suc.prems(1)] .
      show "k \<le> length ?pool'" using Suc.prems(2) by simp
      show "sample_pool w (Suc rng) ?pool' k = sample_pool w' (Suc rng) ?pool' k"
        using tl eq by simp
      show "i' < k" using Suc.prems(4) Suc by simp
    qed
    then show ?thesis using Suc by simp
  qed
qed


lemma redraw_reject:
  "raw_draw w rng mod n \<in> sel \<Longrightarrow> redraw w rng n sel = redraw w (Suc rng) n sel"
  by (subst redraw.simps) simp

lemma redraw_accept:
  "raw_draw w rng mod n \<notin> sel \<Longrightarrow> redraw w rng n sel = Some (raw_draw w rng mod n, Suc rng)"
  by (subst redraw.simps) simp

lemma redraw_returns:
  "rng \<le> p \<Longrightarrow> raw_draw w p mod n \<notin> sel \<Longrightarrow>
     \<exists>q. rng \<le> q \<and> q \<le> p \<and> raw_draw w q mod n \<notin> sel
        \<and> (\<forall>i. rng \<le> i \<and> i < q \<longrightarrow> raw_draw w i mod n \<in> sel)
        \<and> redraw w rng n sel = Some (raw_draw w q mod n, Suc q)"
proof (induction "p - rng" arbitrary: rng)
  case 0
  then have "rng = p" by simp
  with "0.prems" show ?case by (auto simp: redraw_accept)
next
  case (Suc d)
  show ?case
  proof (cases "raw_draw w rng mod n \<in> sel")
    case False
    then show ?thesis using Suc.prems by (auto simp: redraw_accept)
  next
    case True
    have "d = p - Suc rng" "Suc rng \<le> p" using Suc.hyps(2) by simp_all
    from Suc.hyps(1) [OF this Suc.prems(2)]
    obtain q where q: "Suc rng \<le> q" "q \<le> p" "raw_draw w q mod n \<notin> sel"
      "\<forall>i. Suc rng \<le> i \<and> i < q \<longrightarrow> raw_draw w i mod n \<in> sel"
      "redraw w (Suc rng) n sel = Some (raw_draw w q mod n, Suc q)"
      by blast
    have "\<forall>i. rng \<le> i \<and> i < q \<longrightarrow> raw_draw w i mod n \<in> sel"
      using q(4) True by (metis Suc_leI le_neq_implies_less)
    with q True show ?thesis
      by (intro exI [of _ q]) (simp add: redraw_reject)
  qed
qed

lemma redraw_sound:
  assumes "redraw w rng n sel = Some y"
  shows "\<exists>q. rng \<le> q \<and> y = (raw_draw w q mod n, Suc q) \<and> raw_draw w q mod n \<notin> sel
            \<and> (\<forall>i. rng \<le> i \<and> i < q \<longrightarrow> raw_draw w i mod n \<in> sel)"
proof (rule redraw.raw_induct
    [where P = "\<lambda>w rng n sel y. \<exists>q. rng \<le> q \<and> y = (raw_draw w q mod n, Suc q)
            \<and> raw_draw w q mod n \<notin> sel
            \<and> (\<forall>i. rng \<le> i \<and> i < q \<longrightarrow> raw_draw w i mod n \<in> sel)",
     OF _ assms])
  fix f :: "world \<Rightarrow> nat \<Rightarrow> nat \<Rightarrow> nat set \<Rightarrow> (nat \<times> nat) option"
    and w rng n sel y
  assume IH: "\<And>w rng n sel y. f w rng n sel = Some y \<Longrightarrow>
        \<exists>q. rng \<le> q \<and> y = (raw_draw w q mod n, Suc q) \<and> raw_draw w q mod n \<notin> sel
            \<and> (\<forall>i. rng \<le> i \<and> i < q \<longrightarrow> raw_draw w i mod n \<in> sel)"
    and body: "(let j = raw_draw w rng mod n in
                 if j \<in> sel then f w (Suc rng) n sel else Some (j, Suc rng)) = Some y"
  show "\<exists>q. rng \<le> q \<and> y = (raw_draw w q mod n, Suc q) \<and> raw_draw w q mod n \<notin> sel
            \<and> (\<forall>i. rng \<le> i \<and> i < q \<longrightarrow> raw_draw w i mod n \<in> sel)"
  proof (cases "raw_draw w rng mod n \<in> sel")
    case False
    with body have "y = (raw_draw w rng mod n, Suc rng)" by (simp add: Let_def)
    with False show ?thesis by (intro exI [of _ rng]) auto
  next
    case True
    with body have "f w (Suc rng) n sel = Some y" by (simp add: Let_def)
    from IH [OF this]
    obtain q where q: "Suc rng \<le> q" "y = (raw_draw w q mod n, Suc q)"
      "raw_draw w q mod n \<notin> sel"
      "\<forall>i. Suc rng \<le> i \<and> i < q \<longrightarrow> raw_draw w i mod n \<in> sel"
      by blast
    have "\<forall>i. rng \<le> i \<and> i < q \<longrightarrow> raw_draw w i mod n \<in> sel"
      using q(4) True by (metis Suc_leI le_neq_implies_less)
    with q show ?thesis by (intro exI [of _ q]) auto
  qed
qed

lemma sample_set_sound:
  "sample_set w rng pop sel k = Some (res, rng') \<Longrightarrow> 0 < length pop \<Longrightarrow>
     \<exists>qs. res = map (\<lambda>q. pop ! (raw_draw w q mod length pop)) qs \<and> length qs = k
          \<and> distinct (map (\<lambda>q. raw_draw w q mod length pop) qs)
          \<and> (\<forall>q \<in> set qs. rng \<le> q \<and> q < rng' \<and> raw_draw w q mod length pop \<notin> sel)
          \<and> rng + k \<le> rng'"
proof (induction k arbitrary: rng sel res rng')
  case 0
  then show ?case by simp
next
  case (Suc k)
  let ?val = "\<lambda>q. raw_draw w q mod length pop"
  from Suc.prems(1) obtain j r1 where r: "redraw w rng (length pop) sel = Some (j, r1)"
    by (auto split: option.splits)
  with Suc.prems(1) obtain res1 where
    s: "sample_set w r1 pop (insert j sel) k = Some (res1, rng')" and res: "res = pop ! j # res1"
    by (auto split: option.splits)
  from redraw_sound [OF r] obtain q where q: "rng \<le> q" "j = ?val q" "r1 = Suc q" "j \<notin> sel"
    by auto
  from Suc.IH [OF s Suc.prems(2)] obtain qs where
    qs: "res1 = map (\<lambda>q. pop ! ?val q) qs" "length qs = k" "distinct (map ?val qs)"
      "\<forall>q' \<in> set qs. r1 \<le> q' \<and> q' < rng' \<and> ?val q' \<notin> insert j sel" "r1 + k \<le> rng'"
    by blast
  have a: "res = map (\<lambda>q. pop ! ?val q) (q # qs)" using res qs(1) q(2) by simp
  have b: "length (q # qs) = Suc k" using qs(2) by simp
  have "?val q \<notin> ?val ` set qs" using qs(4) q(2) by auto
  then have c: "distinct (map ?val (q # qs))" using qs(3) by simp
  have d: "\<forall>q' \<in> set (q # qs). rng \<le> q' \<and> q' < rng' \<and> ?val q' \<notin> sel"
    using qs(4,5) q by auto
  have e: "rng + Suc k \<le> rng'" using qs(5) q(1,3) by simp
  from a b c d e show ?case by blast
qed

lemma filter_eq_le_one:
  "distinct (map f xs) \<Longrightarrow> length (filter (\<lambda>x. f x = v) xs) \<le> 1"
proof (induction xs)
  case Nil
  show ?case by simp
next
  case (Cons x xs)
  show ?case
  proof (cases "f x = v")
    case True
    from Cons.prems have "f x \<notin> f ` set xs" by simp
    then have "\<forall>y \<in> set xs. f y \<noteq> f x" by (metis imageI)
    with True have "filter (\<lambda>x. f x = v) xs = []"
      by (simp add: filter_empty_conv)
    with True show ?thesis by simp
  next
    case False
    with Cons show ?thesis by simp
  qed
qed

lemma sample_set_returns:
  "length js = k \<Longrightarrow> \<forall>p \<in> set js. rng \<le> p \<and> raw_draw w p mod length pop \<notin> sel \<Longrightarrow>
   distinct (map (\<lambda>p. raw_draw w p mod length pop) js) \<Longrightarrow>
     \<exists>r. sample_set w rng pop sel k = Some r"
proof (induction k arbitrary: rng sel js)
  case 0
  show ?case by simp
next
  case (Suc k)
  let ?val = "\<lambda>p. raw_draw w p mod length pop"
  from Suc.prems(1) obtain p where p: "p \<in> set js" by (cases js) auto
  with Suc.prems(2) have "rng \<le> p" "?val p \<notin> sel" by auto
  from redraw_returns [OF this] obtain q where
    q: "rng \<le> q" "?val q \<notin> sel" "\<forall>i. rng \<le> i \<and> i < q \<longrightarrow> ?val i \<in> sel"
      "redraw w rng (length pop) sel = Some (?val q, Suc q)"
    by blast
  let ?js = "filter (\<lambda>p. ?val p \<noteq> ?val q) js"
  have "length (filter (\<lambda>p. ?val p = ?val q) js) \<le> 1"
    using Suc.prems(3) by (rule filter_eq_le_one)
  moreover have "length js = length (filter (\<lambda>p. ?val p = ?val q) js) + length ?js"
    by (rule sum_length_filter_compl [symmetric])
  ultimately have len: "k \<le> length ?js" using Suc.prems(1) by simp
  have after: "Suc q \<le> p' \<and> ?val p' \<notin> insert (?val q) sel" if "p' \<in> set ?js" for p'
  proof -
    from that have m: "p' \<in> set js" "?val p' \<noteq> ?val q" by auto
    with Suc.prems(2) have "rng \<le> p'" "?val p' \<notin> sel" by auto
    with q(3) m(2) have "\<not> p' < q" "p' \<noteq> q" by auto
    then show ?thesis using m(2) \<open>?val p' \<notin> sel\<close> by auto
  qed
  have "\<exists>r. sample_set w (Suc q) pop (insert (?val q) sel) k = Some r"
  proof (rule Suc.IH [of "take k ?js"])
    show "length (take k ?js) = k" using len by simp
    show "\<forall>p \<in> set (take k ?js). Suc q \<le> p \<and> ?val p \<notin> insert (?val q) sel"
      using after by (meson in_set_takeD)
    have "distinct (map ?val ?js)" using Suc.prems(3) by (simp add: distinct_map_filter)
    then show "distinct (map ?val (take k ?js))"
      by (simp add: take_map [symmetric])
  qed
  then obtain r where "sample_set w (Suc q) pop (insert (?val q) sel) k = Some r" by blast
  with q(4) show ?case by (cases r) simp
qed

lemma sample_set_direct:
  "distinct idx \<Longrightarrow> set idx \<inter> sel = {} \<Longrightarrow> \<forall>i \<in> set idx. i < length pop \<Longrightarrow>
   \<forall>m < length idx. raw_draw w (rng + m) = idx ! m \<Longrightarrow>
     sample_set w rng pop sel (length idx) = Some (map (nth pop) idx, rng + length idx)"
proof (induction idx arbitrary: rng sel)
  case Nil
  show ?case by simp
next
  case (Cons i idx)
  have d0: "raw_draw w rng = i" using Cons.prems(4) [rule_format, of 0] by simp
  have i: "i < length pop" "i \<notin> sel" using Cons.prems(2,3) by auto
  then have r: "redraw w rng (length pop) sel = Some (i, Suc rng)"
    by (simp add: redraw_accept d0)
  have "sample_set w (Suc rng) pop (insert i sel) (length idx)
          = Some (map (nth pop) idx, Suc rng + length idx)"
  proof (rule Cons.IH)
    show "distinct idx" using Cons.prems(1) by simp
    show "set idx \<inter> insert i sel = {}" using Cons.prems(1,2) by auto
    show "\<forall>i \<in> set idx. i < length pop" using Cons.prems(3) by simp
    show "\<forall>m < length idx. raw_draw w (Suc rng + m) = idx ! m"
      using Cons.prems(4) [rule_format, of "Suc m" for m] by simp
  qed
  with r show ?case by simp
qed


lemma ex_positions:
  "set xs \<subseteq> set pop \<Longrightarrow>
     \<exists>idx. xs = map (nth pop) idx \<and> (\<forall>i \<in> set idx. i < length pop)"
proof (induction xs)
  case Nil
  show ?case by simp
next
  case (Cons x xs)
  then obtain idx where idx: "xs = map (nth pop) idx" "\<forall>i \<in> set idx. i < length pop"
    by auto
  from Cons.prems obtain i where i: "i < length pop" "pop ! i = x"
    by (auto simp: in_set_conv_nth)
  with idx show ?case by (intro exI [of _ "i # idx"]) simp
qed

lemma sample_set_onto:
  assumes "distinct xs" and "set xs \<subseteq> set pop"
  shows "\<exists>d. sample_set (w\<lparr>raw_draw := d\<rparr>) rng pop {} (length xs)
                = Some (xs, rng + length xs)"
proof -
  from ex_positions [OF assms(2)] obtain idx where
    idx: "xs = map (nth pop) idx" "\<forall>i \<in> set idx. i < length pop"
    by blast
  have d: "distinct idx" using assms(1) unfolding idx(1) by (simp add: distinct_map)
  let ?d = "\<lambda>p. idx ! (p - rng)"
  have "sample_set (w\<lparr>raw_draw := ?d\<rparr>) rng pop {} (length idx)
          = Some (map (nth pop) idx, rng + length idx)"
    using d idx(2) by (intro sample_set_direct) simp_all
  then show ?thesis unfolding idx(1) by (intro exI [of _ ?d]) simp
qed

lemma setsize_small: "k \<le> 5 \<Longrightarrow> setsize k = 21"
  by (simp add: setsize_def)

lemma random_sample_cases:
  "k \<le> length pop \<Longrightarrow> k \<le> 5 \<Longrightarrow>
     random_sample w rng pop k =
       (if length pop \<le> 21 then Some (Inr (sample_pool w rng pop k, rng + k))
        else map_option Inr (sample_set w rng pop {} k))"
  by (simp add: random_sample_def Let_def setsize_small split: option.splits)


section \<open>The loops of get_sample_mutation_data\<close>

lemma and_then_Inr [simp]:
  "and_then (out, Inr x) f = (out @ fst (f x), snd (f x))"
  by (simp add: and_then_def split: prod.splits)

lemma and_then_Inl [simp]:
  "and_then (out, Inl e) f = (out, Inl e)"
  by (simp add: and_then_def)

lemma read_maf_file_kept:
  "\<exists>out. read_maf_file w p = (out, Inr (kept_table w p)) \<and> list_all is_skip_line out"
  by (auto simp: kept_table_def read_maf_file_cases split: sum.splits)

lemma read_case_files_result:
  "\<exists>out. read_case_files w c s files =
            (out, Inr (map (stamp c s) (List.map_filter (kept_table w) files)))
         \<and> list_all is_skip_line out"
proof (induction files)
  case Nil
  show ?case by (simp add: returns_def List.map_filter_simps)
next
  case (Cons f files)
  obtain o1 where o1: "read_maf_file w f = (o1, Inr (kept_table w f))" "list_all is_skip_line o1"
    using read_maf_file_kept by blast
  obtain o2 where o2: "read_case_files w c s files =
            (o2, Inr (map (stamp c s) (List.map_filter (kept_table w) files)))"
      "list_all is_skip_line o2"
    using Cons.IH by blast
  show ?case
    using o1 o2
    by (cases "kept_table w f") (simp_all add: returns_def List.map_filter_simps stamp_def)
qed

lemma read_cases_result:
  "\<exists>out. read_cases w (path_join BASE_FOLDER s) s cs =
            (out, Inr (concat (map (case_tables w s) cs)))
         \<and> list_all is_skip_line out"
proof (induction cs)
  case Nil
  show ?case by (simp add: returns_def)
next
  case (Cons c cs)
  obtain o1 where o1: "read_case_files w c s (case_files w s c) = (o1, Inr (case_tables w s c))"
      "list_all is_skip_line o1"
    using read_case_files_result [of w c s "case_files w s c"]
    by (auto simp: case_tables_def)
  obtain o2 where o2: "read_cases w (path_join BASE_FOLDER s) s cs =
            (o2, Inr (concat (map (case_tables w s) cs)))" "list_all is_skip_line o2"
    using Cons.IH by blast
  show ?case
    using o1 o2 by (simp add: returns_def case_files_def)
qed

lemma and_then_opt_None [simp]: "and_then_opt None f = None"
  by (simp add: and_then_opt_def)

lemma and_then_opt_Inl [simp]: "and_then_opt (Some (out, Inl e)) f = Some (out, Inl e)"
  by (simp add: and_then_opt_def)

lemma and_then_opt_Inr [simp]:
  "and_then_opt (Some (out, Inr x)) f =
     (case f x of None \<Rightarrow> None | Some (out', r) \<Rightarrow> Some (out @ out', r))"
  by (simp add: and_then_opt_def)

lemma get_sample_missing:
  "fs w (path_join BASE_FOLDER stage) = None \<Longrightarrow>
     get_sample_mutation_data w rng stage =
       Some ([Print (''Warning: '' @ path_join BASE_FOLDER stage @ '' does not exist.'')],
             Inr ([], rng))"
  by (simp add: get_sample_mutation_data_def os_path_exists_def Let_def)

lemma get_sample_not_a_directory:
  "fs w (path_join BASE_FOLDER stage) = Some File \<Longrightarrow>
     get_sample_mutation_data w rng stage =
       Some ([], Inl (NotADirectoryError,
                      ''[Errno 20] Not a directory: '' @ path_join BASE_FOLDER stage))"
  by (simp add: get_sample_mutation_data_def os_path_exists_def os_listdir_def Let_def raises_def)

lemma case_folders_Dir:
  "fs w (path_join BASE_FOLDER stage) = Some (Dir es) \<Longrightarrow>
     case_folders_of w (path_join BASE_FOLDER stage) (map fst es) = case_folders w stage"
  by (simp add: case_folders_def)

lemma random_sample_selection:
  assumes "fs w (path_join BASE_FOLDER stage) = Some (Dir es)"
  shows "random_sample w rng (case_folders w stage)
           (min samples_per_stage (length (case_folders w stage)))
         = map_option Inr (selection w rng stage)"
proof -
  let ?k = "min samples_per_stage (length (case_folders w stage))"
  have "?k \<le> length (case_folders w stage)" "?k \<le> 5"
    by (simp_all add: samples_per_stage_def)
  from random_sample_cases [OF this] show ?thesis
    using assms by (simp add: selection_def split: option.splits)
qed

lemma selection_Dir:
  assumes "fs w (path_join BASE_FOLDER stage) = Some (Dir es)"
  shows "selection w rng stage =
           (if length (case_folders w stage) \<le> 21
            then Some (sample_pool w rng (case_folders w stage)
                         (min samples_per_stage (length (case_folders w stage))),
                       rng + min samples_per_stage (length (case_folders w stage)))
            else sample_set w rng (case_folders w stage) {}
                   (min samples_per_stage (length (case_folders w stage))))"
proof -
  let ?k = "min samples_per_stage (length (case_folders w stage))"
  have "?k \<le> length (case_folders w stage)" "?k \<le> 5"
    by (simp_all add: samples_per_stage_def)
  from random_sample_cases [OF this] show ?thesis
    using assms by (simp add: selection_def split: option.splits)
qed

lemma get_sample_never:
  assumes "fs w (path_join BASE_FOLDER stage) = Some (Dir es)"
    and "selection w rng stage = None"
  shows "get_sample_mutation_data w rng stage = None"
  using assms
  by (simp add: get_sample_mutation_data_def os_path_exists_def os_listdir_def Let_def
      case_folders_Dir random_sample_selection returns_def)

lemma get_sample_directory:
  assumes dir: "fs w (path_join BASE_FOLDER stage) = Some (Dir es)"
    and sel: "selection w rng stage = Some (cases, rng')"
  shows "\<exists>out. get_sample_mutation_data w rng stage =
           Some ((if length (case_folders w stage) < samples_per_stage
                  then [Print (few_samples_warning (length (case_folders w stage))
                                 (path_join BASE_FOLDER stage))]
                  else []) @ out,
                 Inr (concat (map (case_tables w stage) cases), rng'))
         \<and> list_all is_skip_line out"
proof -
  let ?sd = "path_join BASE_FOLDER stage"
  obtain out where out: "read_cases w ?sd stage cases =
       (out, Inr (concat (map (case_tables w stage) cases)))" "list_all is_skip_line out"
    using read_cases_result by blast
  have "get_sample_mutation_data w rng stage =
          Some ((if length (case_folders w stage) < samples_per_stage
                 then [Print (few_samples_warning (length (case_folders w stage)) ?sd)]
                 else []) @ out,
                Inr (concat (map (case_tables w stage) cases), rng'))"
    using dir out(1)
    by (simp add: get_sample_mutation_data_def os_path_exists_def os_listdir_def Let_def
        case_folders_Dir random_sample_selection sel returns_def)
  with out(2) show ?thesis by blast
qed

section \<open>Selection in get_sample_mutation_data\<close>

lemma not_skip_warning: "\<not> is_skip_line (Print (few_samples_warning n d))"
  by (simp add: few_samples_warning_def)

lemma case_folders_raw_draw [simp]:
  "case_folders (w\<lparr>raw_draw := d\<rparr>) stage = case_folders w stage"
  by (simp add: case_folders_def case_folders_of_def os_path_isdir_def
      split: option.splits node.splits)

lemma selected_cases_pool:
  "fs w (path_join BASE_FOLDER stage) = Some (Dir es) \<Longrightarrow>
   length (case_folders w stage) \<le> 21 \<Longrightarrow>
     selected_cases w rng stage =
       sample_pool w rng (case_folders w stage)
         (min samples_per_stage (length (case_folders w stage)))"
  by (simp add: selected_cases_def selection_Dir)

text \<open>
  C3: for a stage whose directory exists, with N entries that are directories (the case
  folders), whenever the selection of get_sample_mutation_data returns it is exactly
  min N samples_per_stage cases, pairwise distinct and all among the case folders; when N
  is below the sample size the selection is all N case folders and the warning is printed,
  and when N is at least the sample size exactly samples_per_stage distinct cases are
  selected and no warning is printed. The function then returns the tables of the selected
  cases, with the generator advanced by at least one draw per selected case: by exactly
  that many draws for N up to 21 (the loop over the pool), and for a larger N the selected
  cases are the case folders at the accepted draws. The function returns if and only if
  its selection does, and the selection returns if and only if N is at most 21 or the
  generator, from its current state on, draws samples_per_stage pairwise different
  positions (for a larger N the loop draws again while a position is already selected).
  The selection is drawn without replacement and without bias between the case folders:
  every ordered choice of min N samples_per_stage distinct case folders is selected for
  some draws of the generator, one draw per case; and for N up to 21 two sequences of
  draws that select the same cases agree draw by draw (modulo the shrinking pool size).
\<close>

theorem get_sample_mutation_data_selection:
  assumes dir: "fs w (path_join BASE_FOLDER stage) = Some (Dir es)"
    and names: "distinct (map fst es)"
  shows "(\<forall>cases rng'. selection w rng stage = Some (cases, rng') \<longrightarrow>
            length cases = min (length (case_folders w stage)) samples_per_stage
          \<and> distinct cases
          \<and> set cases \<subseteq> set (case_folders w stage)
          \<and> (length (case_folders w stage) < samples_per_stage \<longrightarrow>
               set cases = set (case_folders w stage))
          \<and> rng + min (length (case_folders w stage)) samples_per_stage \<le> rng'
          \<and> (length (case_folders w stage) \<le> 21 \<longrightarrow>
               rng' = rng + min (length (case_folders w stage)) samples_per_stage)
          \<and> (21 < length (case_folders w stage) \<longrightarrow>
               (\<exists>qs. cases = map (\<lambda>q. case_folders w stage
                                         ! (raw_draw w q mod length (case_folders w stage))) qs
                    \<and> (\<forall>q \<in> set qs. rng \<le> q \<and> q < rng')))
          \<and> (\<exists>out. get_sample_mutation_data w rng stage =
                  Some ((if length (case_folders w stage) < samples_per_stage
                         then [Print (few_samples_warning (length (case_folders w stage))
                                        (path_join BASE_FOLDER stage))]
                         else []) @ out,
                        Inr (concat (map (case_tables w stage) cases), rng'))
                \<and> list_all is_skip_line out)
          \<and> (Print (few_samples_warning (length (case_folders w stage))
                        (path_join BASE_FOLDER stage))
                 \<in> set (printed (get_sample_mutation_data w rng stage))
               \<longleftrightarrow> length (case_folders w stage) < samples_per_stage))
       \<and> (get_sample_mutation_data w rng stage = None \<longleftrightarrow> selection w rng stage = None)
       \<and> (selection w rng stage \<noteq> None \<longleftrightarrow>
            length (case_folders w stage) \<le> 21
            \<or> (\<exists>js. length js = samples_per_stage \<and> (\<forall>p \<in> set js. rng \<le> p)
                  \<and> distinct (map (\<lambda>p. raw_draw w p mod length (case_folders w stage)) js)))
       \<and> (\<forall>xs. distinct xs \<and> set xs \<subseteq> set (case_folders w stage)
                \<and> length xs = min (length (case_folders w stage)) samples_per_stage \<longrightarrow>
              (\<exists>d. selection (w\<lparr>raw_draw := d\<rparr>) rng stage = Some (xs, rng + length xs)))
       \<and> (\<forall>d d' i. length (case_folders w stage) \<le> 21
                  \<and> selected_cases (w\<lparr>raw_draw := d\<rparr>) rng stage
                      = selected_cases (w\<lparr>raw_draw := d'\<rparr>) rng stage
                  \<and> i < min (length (case_folders w stage)) samples_per_stage \<longrightarrow>
              d (rng + i) mod (length (case_folders w stage) - i)
                = d' (rng + i) mod (length (case_folders w stage) - i))"
proof -
  let ?cf = "case_folders w stage"
  let ?N = "length ?cf"
  let ?k = "min samples_per_stage ?N"
  let ?val = "\<lambda>q. raw_draw w q mod ?N"
  let ?warn = "Print (few_samples_warning ?N (path_join BASE_FOLDER stage))"
  have cf: "?cf = case_folders_of w (path_join BASE_FOLDER stage) (map fst es)"
    using dir by (simp add: case_folders_def)
  have dcf: "distinct ?cf"
    using names by (simp add: cf case_folders_of_def)
  have k: "?k \<le> ?N" by simp
  have kk: "min ?N samples_per_stage = ?k" by (simp add: min.commute)
  have dir': "fs (w\<lparr>raw_draw := d\<rparr>) (path_join BASE_FOLDER stage) = Some (Dir es)" for d
    using dir by simp
  note sel = selection_Dir [OF dir, of rng]
  have c1: "length cases = min ?N samples_per_stage
          \<and> distinct cases
          \<and> set cases \<subseteq> set ?cf
          \<and> (?N < samples_per_stage \<longrightarrow> set cases = set ?cf)
          \<and> rng + min ?N samples_per_stage \<le> rng'
          \<and> (?N \<le> 21 \<longrightarrow> rng' = rng + min ?N samples_per_stage)
          \<and> (21 < ?N \<longrightarrow>
               (\<exists>qs. cases = map (\<lambda>q. ?cf ! ?val q) qs \<and> (\<forall>q \<in> set qs. rng \<le> q \<and> q < rng')))
          \<and> (\<exists>out. get_sample_mutation_data w rng stage =
                  Some ((if ?N < samples_per_stage then [?warn] else []) @ out,
                        Inr (concat (map (case_tables w stage) cases), rng'))
                \<and> list_all is_skip_line out)
          \<and> (?warn \<in> set (printed (get_sample_mutation_data w rng stage))
               \<longleftrightarrow> ?N < samples_per_stage)"
    if s: "selection w rng stage = Some (cases, rng')" for cases rng'
  proof -
    obtain out where out: "get_sample_mutation_data w rng stage =
         Some ((if ?N < samples_per_stage then [?warn] else []) @ out,
               Inr (concat (map (case_tables w stage) cases), rng'))"
        "list_all is_skip_line out"
      using get_sample_directory [OF dir s] by blast
    have "?warn \<notin> set out"
      using out(2) not_skip_warning by (auto simp: list_all_iff)
    then have h: "?warn \<in> set (printed (get_sample_mutation_data w rng stage))
               \<longleftrightarrow> ?N < samples_per_stage"
      by (simp add: out(1) printed_def)
    from out have g: "\<exists>out. get_sample_mutation_data w rng stage =
                  Some ((if ?N < samples_per_stage then [?warn] else []) @ out,
                        Inr (concat (map (case_tables w stage) cases), rng'))
                \<and> list_all is_skip_line out"
      by blast
    show ?thesis
    proof (cases "?N \<le> 21")
      case True
      with s sel have cases: "cases = sample_pool w rng ?cf ?k" and r: "rng' = rng + ?k"
        by simp_all
      have a: "length cases = min ?N samples_per_stage"
        by (simp add: cases length_sample_pool kk)
      have b: "distinct cases"
        unfolding cases using k dcf by (rule distinct_sample_pool)
      have c: "set cases \<subseteq> set ?cf"
        unfolding cases using k by (rule set_sample_pool)
      have d: "set cases = set ?cf" if "?N < samples_per_stage"
      proof -
        from that have "?k = ?N" by simp
        then have "mset (sample_pool w rng ?cf ?k) = mset ?cf" by (rule sample_pool_all)
        then show ?thesis unfolding cases by (rule mset_eq_setD)
      qed
      from a b c d r True g h show ?thesis by (simp add: kk)
    next
      case False
      then have pos: "0 < ?N" and big: "\<not> ?N < samples_per_stage"
        unfolding samples_per_stage_def by arith+
      from False s sel have "sample_set w rng ?cf {} ?k = Some (cases, rng')" by simp
      from sample_set_sound [OF this pos] obtain qs where
        qs: "cases = map (\<lambda>q. ?cf ! ?val q) qs" "length qs = ?k" "distinct (map ?val qs)"
          "\<forall>q \<in> set qs. rng \<le> q \<and> q < rng'" "rng + ?k \<le> rng'"
        by auto
      have a: "length cases = min ?N samples_per_stage" by (simp add: qs(1,2) kk)
      have "inj_on (nth ?cf) (?val ` set qs)"
        using dcf pos by (intro inj_on_nth) auto
      then have "distinct (map (nth ?cf) (map ?val qs))"
        using qs(3) by (simp add: distinct_map del: map_map)
      then have b: "distinct cases" by (simp add: qs(1) comp_def)
      have c: "set cases \<subseteq> set ?cf" using pos by (auto simp: qs(1))
      have e: "\<exists>qs. cases = map (\<lambda>q. ?cf ! ?val q) qs \<and> (\<forall>q \<in> set qs. rng \<le> q \<and> q < rng')"
        using qs(1,4) by blast
      from a b c big qs(5) False e g h show ?thesis by (simp add: kk)
    qed
  qed
  have c2: "get_sample_mutation_data w rng stage = None \<longleftrightarrow> selection w rng stage = None"
  proof
    assume n: "get_sample_mutation_data w rng stage = None"
    show "selection w rng stage = None"
    proof (cases "selection w rng stage")
      case None
      then show ?thesis .
    next
      case (Some r)
      obtain cases rng' where "r = (cases, rng')" by (cases r)
      with Some get_sample_directory [OF dir, of rng cases rng'] n show ?thesis by auto
    qed
  next
    assume "selection w rng stage = None"
    with dir show "get_sample_mutation_data w rng stage = None" by (rule get_sample_never)
  qed
  have c3: "selection w rng stage \<noteq> None \<longleftrightarrow>
            ?N \<le> 21
            \<or> (\<exists>js. length js = samples_per_stage \<and> (\<forall>p \<in> set js. rng \<le> p)
                  \<and> distinct (map ?val js))"
  proof (cases "?N \<le> 21")
    case True
    with sel show ?thesis by simp
  next
    case False
    then have pos: "0 < ?N" and ks: "?k = samples_per_stage"
      unfolding samples_per_stage_def by arith+
    from False sel have s: "selection w rng stage = sample_set w rng ?cf {} ?k" by simp
    show ?thesis
    proof
      assume "selection w rng stage \<noteq> None"
      then obtain cases rng' where "sample_set w rng ?cf {} ?k = Some (cases, rng')"
        unfolding s by auto
      from sample_set_sound [OF this pos] obtain qs where
        "length qs = ?k" "distinct (map ?val qs)" "\<forall>q \<in> set qs. rng \<le> q"
        by auto
      then show "?N \<le> 21
            \<or> (\<exists>js. length js = samples_per_stage \<and> (\<forall>p \<in> set js. rng \<le> p)
                  \<and> distinct (map ?val js))"
        unfolding ks by blast
    next
      assume "?N \<le> 21
            \<or> (\<exists>js. length js = samples_per_stage \<and> (\<forall>p \<in> set js. rng \<le> p)
                  \<and> distinct (map ?val js))"
      with False obtain js where js: "length js = ?k" "\<forall>p \<in> set js. rng \<le> p"
          "distinct (map ?val js)"
        unfolding ks by blast
      from js(2) have "\<forall>p \<in> set js. rng \<le> p \<and> ?val p \<notin> {}" by simp
      from sample_set_returns [OF js(1) this js(3)]
      show "selection w rng stage \<noteq> None" unfolding s by auto
    qed
  qed
  have c4: "\<exists>d. selection (w\<lparr>raw_draw := d\<rparr>) rng stage = Some (xs, rng + length xs)"
    if xs1: "distinct xs" and xs2: "set xs \<subseteq> set ?cf"
      and xs3: "length xs = min ?N samples_per_stage" for xs
  proof -
    have len: "?k = length xs" using xs3 by (simp add: kk)
    show ?thesis
    proof (cases "?N \<le> 21")
      case True
      obtain d where "sample_pool (w\<lparr>raw_draw := d\<rparr>) rng ?cf (length xs) = xs"
        using sample_pool_onto [OF dcf xs1 xs2] by blast
      with True have "selection (w\<lparr>raw_draw := d\<rparr>) rng stage = Some (xs, rng + length xs)"
        by (simp add: selection_Dir [OF dir'] len)
      then show ?thesis by blast
    next
      case False
      obtain d where "sample_set (w\<lparr>raw_draw := d\<rparr>) rng ?cf {} (length xs)
                        = Some (xs, rng + length xs)"
        using sample_set_onto [OF xs1 xs2] by blast
      with False have "selection (w\<lparr>raw_draw := d\<rparr>) rng stage = Some (xs, rng + length xs)"
        by (simp add: selection_Dir [OF dir'] len)
      then show ?thesis by blast
    qed
  qed
  have c5: "d (rng + i) mod (?N - i) = d' (rng + i) mod (?N - i)"
    if small: "?N \<le> 21"
      and eq: "selected_cases (w\<lparr>raw_draw := d\<rparr>) rng stage
             = selected_cases (w\<lparr>raw_draw := d'\<rparr>) rng stage"
      and i: "i < min ?N samples_per_stage" for d d' i
  proof -
    have "sample_pool (w\<lparr>raw_draw := d\<rparr>) rng ?cf ?k = sample_pool (w\<lparr>raw_draw := d'\<rparr>) rng ?cf ?k"
      using eq small by (simp add: selected_cases_pool [OF dir'])
    moreover have "i < ?k" using i by (simp add: kk)
    ultimately have "raw_draw (w\<lparr>raw_draw := d\<rparr>) (rng + i) mod (?N - i)
                   = raw_draw (w\<lparr>raw_draw := d'\<rparr>) (rng + i) mod (?N - i)"
      using sample_pool_inj [OF dcf k] by blast
    then show ?thesis by simp
  qed
  from c1 c2 c3 c4 c5 show ?thesis by blast
qed

lemma example_fs_stage_i:
  "fs example_world (path_join BASE_FOLDER ''StageI'')
     = Some (Dir [(''TCGA-A'', case_a), (''README'', File), (''TCGA-B'', case_b)])"
  by (simp add: example_world_def example_fs_def path_join_def BASE_FOLDER_def)

lemma example_fs_stage_iv:
  "fs example_world (path_join BASE_FOLDER ''StageIV'') = Some stage_iv"
  by (simp add: example_world_def example_fs_def path_join_def BASE_FOLDER_def)

lemma example_case_folders_i:
  "case_folders example_world ''StageI'' = [''TCGA-A'', ''TCGA-B'']"
  by (simp add: case_folders_def example_fs_stage_i case_folders_of_def os_path_isdir_def)
     (simp add: example_world_def example_fs_def path_join_def BASE_FOLDER_def case_a_def
        case_b_def)

lemma example_case_folders_iv:
  "case_folders example_world ''StageIV'' = [''P1'', ''P2'', ''P3'', ''P4'', ''P5'']"
  by (simp add: case_folders_def example_fs_stage_iv stage_iv_def case_folders_of_def
        os_path_isdir_def)
     (simp add: example_world_def example_fs_def path_join_def BASE_FOLDER_def case_p3_def)

lemma crowded_fs_stage_i:
  "fs crowded_world (path_join BASE_FOLDER ''StageI'')
     = Some (Dir (map (\<lambda>n. (n, Dir [])) crowd))"
  by (simp add: crowded_world_def path_join_def BASE_FOLDER_def)

lemma crowded_case_folders: "case_folders crowded_world ''StageI'' = crowd"
  by code_simp

lemma crowded_selection:
  "selection crowded_world 0 ''StageI'' = Some ([''C00'', ''C01'', ''C02'', ''C03''], 5)"
  by code_simp

theorem get_sample_mutation_data_selection_witness:
  "set (selected_cases example_world 0 ''StageI'') = {''TCGA-A'', ''TCGA-B''}
   \<and> rng_after example_world 0 ''StageI'' = 2
   \<and> Print ''Warning: Only 2 samples found in ./grade_generalised/StageI, but 4 required.''
        \<in> set (printed (get_sample_mutation_data example_world 0 ''StageI''))
   \<and> selection crowded_world 0 ''StageI'' = Some ([''C00'', ''C01'', ''C02'', ''C03''], 5)
   \<and> (\<exists>out. get_sample_mutation_data crowded_world 0 ''StageI'' =
          Some (out, Inr (concat (map (case_tables crowded_world ''StageI'')
                                    [''C00'', ''C01'', ''C02'', ''C03'']), 5)))
   \<and> Print ''Warning: Only 22 samples found in ./grade_generalised/StageI, but 4 required.''
        \<notin> set (printed (get_sample_mutation_data crowded_world 0 ''StageI''))"
proof -
  have "distinct (map fst [(''TCGA-A'', case_a), (''README'', File), (''TCGA-B'', case_b)])"
    by simp
  note ex = get_sample_mutation_data_selection [OF example_fs_stage_i this, of 0]
  from ex have "selection example_world 0 ''StageI'' \<noteq> None"
    by (simp add: example_case_folders_i)
  then obtain cases rng' where s: "selection example_world 0 ''StageI'' = Some (cases, rng')"
    by auto
  with ex have i: "set (selected_cases example_world 0 ''StageI'') = {''TCGA-A'', ''TCGA-B''}"
       "rng_after example_world 0 ''StageI'' = 2"
       "Print ''Warning: Only 2 samples found in ./grade_generalised/StageI, but 4 required.''
          \<in> set (printed (get_sample_mutation_data example_world 0 ''StageI''))"
    by (auto simp: example_case_folders_i samples_per_stage_def few_samples_warning_def
          path_join_def BASE_FOLDER_def selected_cases_def rng_after_def)
  have "distinct (map fst (map (\<lambda>n. (n, Dir [])) crowd))"
    by (simp add: crowd_def comp_def)
  note cr = get_sample_mutation_data_selection [OF crowded_fs_stage_i this, of 0]
  have len: "length (case_folders crowded_world ''StageI'') = 22"
    by (simp add: crowded_case_folders crowd_def)
  have rd: "raw_draw crowded_world = (\<lambda>i. i - 1)"
    by (simp add: crowded_world_def)
  have "length [0, 2, 3, 4 :: nat] = samples_per_stage \<and> (\<forall>p \<in> set [0, 2, 3, 4 :: nat]. 0 \<le> p)
      \<and> distinct (map (\<lambda>p. raw_draw crowded_world p
                              mod length (case_folders crowded_world ''StageI''))
                    [0, 2, 3, 4])"
    by (simp add: len rd samples_per_stage_def)
  then have "\<exists>js. length js = samples_per_stage \<and> (\<forall>p \<in> set js. 0 \<le> p)
      \<and> distinct (map (\<lambda>p. raw_draw crowded_world p
                              mod length (case_folders crowded_world ''StageI'')) js)"
    by (rule exI)
  with cr have "selection crowded_world 0 ''StageI'' \<noteq> None" by blast
  then obtain cases' rng'' where
    s': "selection crowded_world 0 ''StageI'' = Some (cases', rng'')"
    by auto
  then have v: "cases' = [''C00'', ''C01'', ''C02'', ''C03'']" "rng'' = 5"
    by (simp_all add: crowded_selection)
  from cr s' have
    "\<exists>out. get_sample_mutation_data crowded_world 0 ''StageI'' =
        Some ((if length (case_folders crowded_world ''StageI'') < samples_per_stage
               then [Print (few_samples_warning (length (case_folders crowded_world ''StageI''))
                              (path_join BASE_FOLDER ''StageI''))]
               else []) @ out,
              Inr (concat (map (case_tables crowded_world ''StageI'') cases'), rng''))
          \<and> list_all is_skip_line out"
    "Print (few_samples_warning (length (case_folders crowded_world ''StageI''))
              (path_join BASE_FOLDER ''StageI''))
       \<in> set (printed (get_sample_mutation_data crowded_world 0 ''StageI''))
     \<longleftrightarrow> length (case_folders crowded_world ''StageI'') < samples_per_stage"
    by blast+
  then have c: "\<exists>out. get_sample_mutation_data crowded_world 0 ''StageI'' =
          Some (out, Inr (concat (map (case_tables crowded_world ''StageI'')
                                    [''C00'', ''C01'', ''C02'', ''C03'']), 5))"
       "Print ''Warning: Only 22 samples found in ./grade_generalised/StageI, but 4 required.''
          \<notin> set (printed (get_sample_mutation_data crowded_world 0 ''StageI''))"
    by (auto simp: v len samples_per_stage_def
          few_samples_warning_def path_join_def BASE_FOLDER_def)
  from i s'[unfolded v] c show ?thesis by blast
qed

section \<open>Rows, stamps and concatenation\<close>

lemma map_of_row_assign: "map_of (row_assign c v r) = (map_of r)(c \<mapsto> v)"
  by (induction r) (auto simp: fun_eq_iff)

lemma cell_at_row_assign:
  "cell_at (row_assign c v r) c' = (if c' = c then v else cell_at r c')"
  by (simp add: cell_at_def map_of_row_assign)

lemma map_of_reindex: "map_of (map (\<lambda>c. (c, f c)) cols) c = (if c \<in> set cols then Some (f c) else None)"
  by (induction cols) auto

lemma cell_at_reindex_row:
  "cell_at (reindex_row cols r) c = (if c \<in> set cols then cell_at r c else NaN)"
  by (simp add: reindex_row_def cell_at_def [of "map _ _"] map_of_reindex)

lemma columns_df_assign: "c \<in> set (columns (df_assign c v df))"
  by (simp add: df_assign_def)

lemma columns_df_assign_mono: "set (columns df) \<subseteq> set (columns (df_assign c v df))"
  by (auto simp: df_assign_def)

lemma rows_df_assign: "rows (df_assign c v df) = map (row_assign c (Str v)) (rows df)"
  by (simp add: df_assign_def)

lemma rows_stamp:
  "rows (stamp c s df) = map (row_assign ''Stage'' (Str s) \<circ> row_assign ''Case'' (Str c)) (rows df)"
  by (simp add: stamp_def rows_df_assign)

lemma columns_stamp:
  "set (columns (stamp c s df)) = set (columns df) \<union> {''Case'', ''Stage''}"
  by (auto simp: stamp_def df_assign_def)

lemma kept_table_Some:
  assumes "kept_table w p = Some df"
  shows "rows df \<noteq> []"
    and "''Variant_Classification'' \<in> set (columns df)"
    and "\<forall>r \<in> set (rows df). isin (cell_at r ''Variant_Classification'') CODING_VARIANTS"
  using assms
  by (auto simp: kept_table_def read_maf_file_cases df_empty_def df_filter_isin_def
        required_columns_def split: sum.splits if_splits)

lemma stamped_stamp:
  assumes "kept_table w p = Some df"
  shows "stamped s (stamp c s df)"
  using kept_table_Some [OF assms]
  by (auto simp: stamped_def rows_stamp columns_stamp row_invariant_def cell_at_row_assign)

lemma stamped_case_tables:
  "df \<in> set (case_tables w s c) \<Longrightarrow> stamped s df"
  by (auto simp: case_tables_def List.map_filter_def stamped_stamp)

lemma stamped_stage_tables:
  "df \<in> set (stage_tables w rng s) \<Longrightarrow> stamped s df"
  by (auto simp: stage_tables_def stamped_case_tables)

lemma stamped_run_tables:
  "df \<in> set (run_tables w rng ss) \<Longrightarrow> \<exists>s \<in> set ss. stamped s df"
  by (induction ss arbitrary: rng) (auto dest: stamped_stage_tables)

section \<open>What a stage and the loop over the stages return\<close>

lemma selection_not_Dir:
  "(\<And>es. fs w (path_join BASE_FOLDER stage) \<noteq> Some (Dir es)) \<Longrightarrow>
     selection w rng stage = Some ([], rng)"
  by (auto simp: selection_def split: option.splits node.splits)

lemma get_sample_returns:
  assumes "get_sample_mutation_data w rng stage = Some (out, Inr (dfs, rng'))"
  shows "dfs = stage_tables w rng stage"
    and "rng' = rng_after w rng stage"
    and "\<forall>e \<in> set out. \<exists>m. e = Print m"
proof -
  consider (absent) "fs w (path_join BASE_FOLDER stage) = None"
    | (plain) "fs w (path_join BASE_FOLDER stage) = Some File"
    | (dir) es where "fs w (path_join BASE_FOLDER stage) = Some (Dir es)"
    by (metis node.exhaust option.exhaust)
  then have "dfs = stage_tables w rng stage
      \<and> rng' = rng_after w rng stage
      \<and> (\<forall>e \<in> set out. \<exists>m. e = Print m)"
  proof cases
    case absent
    then have "selection w rng stage = Some ([], rng)" by (simp add: selection_def)
    with absent assms show ?thesis
      by (auto simp: get_sample_missing stage_tables_def selected_cases_def rng_after_def)
  next
    case plain
    with assms show ?thesis by (simp add: get_sample_not_a_directory)
  next
    case (dir es)
    have "selection w rng stage \<noteq> None"
    proof
      assume "selection w rng stage = None"
      with dir have "get_sample_mutation_data w rng stage = None" by (rule get_sample_never)
      with assms show False by simp
    qed
    then obtain cases r where sel: "selection w rng stage = Some (cases, r)" by auto
    obtain o2 where o2: "get_sample_mutation_data w rng stage =
           Some ((if length (case_folders w stage) < samples_per_stage
                  then [Print (few_samples_warning (length (case_folders w stage))
                                 (path_join BASE_FOLDER stage))]
                  else []) @ o2,
                 Inr (concat (map (case_tables w stage) cases), r))"
        "list_all is_skip_line o2"
      using get_sample_directory [OF dir sel] by blast
    have "\<exists>m. e = Print m" if "e \<in> set o2" for e
    proof -
      from that o2(2) have "is_skip_line e" by (simp add: list_all_iff)
      then show ?thesis by (cases e) auto
    qed
    with assms o2(1) sel show ?thesis
      by (auto simp: stage_tables_def selected_cases_def rng_after_def)
  qed
  then show "dfs = stage_tables w rng stage"
    and "rng' = rng_after w rng stage"
    and "\<forall>e \<in> set out. \<exists>m. e = Print m" by blast+
qed

lemma and_then_opt_returns:
  assumes "and_then_opt m f = Some (out, Inr y)"
  obtains o1 x o2 where "m = Some (o1, Inr x)" "f x = Some (o2, Inr y)" "out = o1 @ o2"
proof -
  from assms obtain o1 r where m: "m = Some (o1, r)"
    by (cases m) auto
  show ?thesis
  proof (cases r)
    case (Inl e)
    with assms m show ?thesis by simp
  next
    case (Inr x)
    with assms m obtain o2 where "f x = Some (o2, Inr y)" "out = o1 @ o2"
      by (auto split: option.splits)
    with m Inr that show ?thesis by blast
  qed
qed

lemma collect_stages_returns:
  "collect_stages w rng ss = Some (out, Inr (dfs, rng')) \<Longrightarrow>
     dfs = run_tables w rng ss \<and> (\<forall>e \<in> set out. \<exists>m. e = Print m)"
proof (induction ss arbitrary: rng out dfs rng')
  case Nil
  then show ?case by (simp add: returns_def)
next
  case (Cons s ss)
  have step: "and_then_opt (get_sample_mutation_data w rng s) (\<lambda>(mutation_data, rng1).
                and_then_opt (collect_stages w rng1 ss) (\<lambda>(more, rng2).
                  Some (returns (mutation_data @ more, rng2)))) = Some (out, Inr (dfs, rng'))"
    using Cons.prems by simp
  then obtain o1 x o2 where
      g: "get_sample_mutation_data w rng s = Some (o1, Inr x)"
      and r: "(case x of (mutation_data, rng1) \<Rightarrow>
                and_then_opt (collect_stages w rng1 ss) (\<lambda>(more, rng2).
                  Some (returns (mutation_data @ more, rng2)))) = Some (o2, Inr (dfs, rng'))"
      and out: "out = o1 @ o2"
    by (rule and_then_opt_returns)
  obtain d1 rng1 where x: "x = (d1, rng1)" by (cases x)
  from r x have "and_then_opt (collect_stages w rng1 ss) (\<lambda>(more, rng2).
                  Some (returns (d1 @ more, rng2))) = Some (o2, Inr (dfs, rng'))"
    by simp
  then obtain o3 y o4 where
      c: "collect_stages w rng1 ss = Some (o3, Inr y)"
      and y: "(case y of (d, rng2) \<Rightarrow> Some (returns (d1 @ d, rng2))) = Some (o4, Inr (dfs, rng'))"
      and o2: "o2 = o3 @ o4"
    by (rule and_then_opt_returns)
  obtain d2 rng2 where y2: "y = (d2, rng2)" by (cases y)
  from y y2 have dfs: "dfs = d1 @ d2" and o4: "o4 = []" by (simp_all add: returns_def)
  from get_sample_returns [OF g [unfolded x]]
  have d1: "d1 = stage_tables w rng s" and rng1: "rng1 = rng_after w rng s"
    and p1: "\<forall>e \<in> set o1. \<exists>m. e = Print m" by auto
  from Cons.IH [OF c [unfolded y2]]
  have d2: "d2 = run_tables w rng1 ss" and p3: "\<forall>e \<in> set o3. \<exists>m. e = Print m" by auto
  show ?case using dfs d1 d2 rng1 out o2 o4 p1 p3 by auto
qed

section \<open>Row counts\<close>

lemma rows_stamp_length: "length (rows (stamp c s df)) = length (rows df)"
  by (simp add: rows_stamp)

lemma case_tables_row_count:
  "sum_list (map (\<lambda>df. length (rows df)) (case_tables w s c))
     = sum_list (map (filtered_row_count w) (case_files w s c))"
proof -
  have "sum_list (map (\<lambda>df. length (rows df))
                   (map (stamp c s) (List.map_filter (kept_table w) ps)))
        = sum_list (map (filtered_row_count w) ps)" for ps
    by (induction ps)
       (auto simp: List.map_filter_simps filtered_row_count_def rows_stamp_length
             split: option.splits)
  then show ?thesis by (simp add: case_tables_def)
qed

lemma run_tables_row_count:
  "sum_list (map (\<lambda>df. length (rows df)) (run_tables w rng ss))
     = sum_list (map (filtered_row_count w) (run_files w rng ss))"
proof (induction ss arbitrary: rng)
  case Nil
  show ?case by simp
next
  case (Cons s ss)
  have "sum_list (map (\<lambda>df. length (rows df)) (concat (map (case_tables w s) cs)))
      = sum_list (map (filtered_row_count w) (concat (map (case_files w s) cs)))" for cs
    by (induction cs) (simp_all add: case_tables_row_count)
  then show ?case by (simp add: Cons.IH stage_tables_def)
qed

lemma pd_concat_rows:
  "pd_concat dfs = Inr df \<Longrightarrow>
     rows df = concat (map (\<lambda>d. map (reindex_row (columns df)) (rows d)) dfs)
     \<and> columns df = union_columns (map columns dfs)"
  by (auto simp: pd_concat_def split: if_splits)

lemma pd_concat_row_count:
  assumes "pd_concat dfs = Inr df"
  shows "length (rows df) = sum_list (map (\<lambda>d. length (rows d)) dfs)"
proof -
  have "length (concat (map (\<lambda>d. map f (rows d)) ds)) = sum_list (map (\<lambda>d. length (rows d)) ds)"
    for f :: "row \<Rightarrow> row" and ds
    by (induction ds) simp_all
  with pd_concat_rows [OF assms] show ?thesis by simp
qed

lemma set_union_columns: "set (union_columns css) = (\<Union>cs \<in> set css. set cs)"
  by (simp add: union_columns_def)

lemma pd_concat_keeps:
  assumes "pd_concat dfs = Inr df" and "r' \<in> set (rows df)"
  obtains d r where "d \<in> set dfs" "r \<in> set (rows d)"
    "\<And>c. c \<in> set (columns d) \<Longrightarrow> cell_at r' c = cell_at r c"
proof -
  from pd_concat_rows [OF assms(1)] assms(2)
  obtain d r where d: "d \<in> set dfs" "r \<in> set (rows d)" "r' = reindex_row (columns df) r"
    by auto
  have "cell_at r' c = cell_at r c" if "c \<in> set (columns d)" for c
  proof -
    from that d(1) have "c \<in> set (columns df)"
      using pd_concat_rows [OF assms(1)] by (auto simp: set_union_columns)
    then show ?thesis by (simp add: d(3) cell_at_reindex_row)
  qed
  with d that show ?thesis by blast
qed

section \<open>Grouping, the spreadsheet and the figure\<close>

lemma set_str_values: "set (str_values cs) = {s. Str s \<in> set cs}"
  by (induction cs rule: str_values.induct) auto

lemma set_group_keys: "set (group_keys df ''Stage'') = stage_labels df"
  by (force simp: group_keys_def set_str_values stage_labels_def)

lemma distinct_group_keys: "distinct (group_keys df c)"
  by (simp add: group_keys_def)

lemma groupby_Stage:
  "''Stage'' \<in> set (columns df) \<Longrightarrow>
     groupby df ''Stage'' =
       Inr (map (\<lambda>k. (k, df\<lparr>rows := stage_rows df k\<rparr>)) (group_keys df ''Stage''))"
  by (simp add: groupby_def stage_rows_def)

lemma write_sheets_result:
  "write_sheets groups =
     (map (\<lambda>(k, g). Print (''Saved '' @ str_nat (length (rows g)) @ '' records to sheet: '' @ k))
          groups,
      Inr (map (\<lambda>(k, g). to_excel g k False) groups))"
  by (induction groups) (auto simp: returns_def)

lemma save_to_excel_result:
  assumes "''Stage'' \<in> set (columns df)"
  shows "save_to_excel df f =
     (map (\<lambda>k. Print (''Saved '' @ str_nat (length (stage_rows df k))
                         @ '' records to sheet: '' @ k)) (group_keys df ''Stage'')
        @ [ExcelFile f (map (\<lambda>k. to_excel (df\<lparr>rows := stage_rows df k\<rparr>) k False)
                            (group_keys df ''Stage''))],
      Inr ())"
  by (simp add: save_to_excel_def groupby_Stage [OF assms] write_sheets_result comp_def)

lemma visualize_result:
  assumes "''Variant_Classification'' \<in> set (columns df)" "''Stage'' \<in> set (columns df)"
  shows "visualize_mutation_cnv df =
     ([ImageFile ''mutation_frequency_scatter_filtered.png''
         \<lparr>scatter_points = map (\<lambda>k. (k, length (stage_rows df k))) (group_keys df ''Stage''),
          line_points = map (\<lambda>k. (k, length (stage_rows df k))) (group_keys df ''Stage''),
          title = ''Mutation Frequency by Stage'', xlabel = ''Stage'',
          ylabel = ''Number of Mutations''\<rparr>,
       ShowFigure
         \<lparr>scatter_points = map (\<lambda>k. (k, length (stage_rows df k))) (group_keys df ''Stage''),
          line_points = map (\<lambda>k. (k, length (stage_rows df k))) (group_keys df ''Stage''),
          title = ''Mutation Frequency by Stage'', xlabel = ''Stage'',
          ylabel = ''Number of Mutations''\<rparr>],
      Inr ())"
  using assms
  by (simp add: visualize_mutation_cnv_def groupby_Stage Let_def comp_def)

lemma visualize_raises:
  assumes "''Variant_Classification'' \<notin> set (columns df) \<or> ''Stage'' \<notin> set (columns df)"
  shows "visualize_mutation_cnv df =
     ([], Inl (ValueError,
               ''The dataset must have 'Variant_Classification' and 'Stage' columns.''))"
  using assms by (auto simp: visualize_mutation_cnv_def raises_def)

lemma excel_files_append: "excel_files (a @ b) = excel_files a @ excel_files b"
  by (induction a rule: excel_files.induct) simp_all

lemma excel_files_prints: "\<forall>e \<in> set out. \<exists>m. e = Print m \<Longrightarrow> excel_files out = []"
  by (induction out rule: excel_files.induct) auto

lemma excel_files_map_Print: "excel_files (map (\<lambda>k. Print (f k)) ks) = []"
  by (induction ks) simp_all

lemma pd_concat_columns:
  assumes "pd_concat dfs = Inr df" "d \<in> set dfs"
  shows "set (columns d) \<subseteq> set (columns df)"
  using pd_concat_rows [OF assms(1)] assms(2) by (auto simp: set_union_columns)

lemma pd_concat_nonempty: "dfs \<noteq> [] \<Longrightarrow> \<exists>df. pd_concat dfs = Inr df"
  by (simp add: pd_concat_def)

section \<open>What main does\<close>

text \<open>What main does once the stages are collected.\<close>

lemma main_after_collect:
  assumes "collect_stages w rng stages = Some (o1, Inr (dfs, rng'))"
  shows "dfs = [] \<Longrightarrow>
           main w rng =
             Some (o1 @ [Print ''No coding mutation data collected! Ensure MAF files exist.''],
                   Inr None)"
    and "dfs \<noteq> [] \<Longrightarrow> pd_concat dfs = Inr df \<Longrightarrow>
           main w rng =
             Some (o1 @ fst (save_to_excel df ''mutation_cnv_filtered.xlsx'')
                      @ fst (visualize_mutation_cnv df),
                   Inr (Some df))"
proof -
  show "dfs = [] \<Longrightarrow>
           main w rng =
             Some (o1 @ [Print ''No coding mutation data collected! Ensure MAF files exist.''],
                   Inr None)"
    using assms by (simp add: main_def)
next
  assume ne: "dfs \<noteq> []" and c: "pd_concat dfs = Inr df"
  have all: "\<exists>s \<in> set stages. stamped s d" if "d \<in> set dfs" for d
    using collect_stages_returns [OF assms] that stamped_run_tables by blast
  obtain d0 where d0: "d0 \<in> set dfs" using ne by (cases dfs) auto
  then obtain s0 where "stamped s0 d0" using all by blast
  then have "{''Variant_Classification'', ''Stage''} \<subseteq> set (columns d0)"
    by (auto simp: stamped_def)
  with pd_concat_columns [OF c d0]
  have cols: "''Variant_Classification'' \<in> set (columns df)" "''Stage'' \<in> set (columns df)"
    by auto
  show "main w rng =
             Some (o1 @ fst (save_to_excel df ''mutation_cnv_filtered.xlsx'')
                      @ fst (visualize_mutation_cnv df),
                   Inr (Some df))"
    using assms ne c
    by (simp add: main_def save_to_excel_result [OF cols(2)] visualize_result [OF cols]
          returns_def)
qed

lemma main_returns:
  assumes "main w rng = Some (out, Inr res)"
  obtains o1 rng' where
    "collect_stages w rng stages = Some (o1, Inr (run_tables w rng stages, rng'))"
    and "\<forall>e \<in> set o1. \<exists>m. e = Print m"
proof -
  from assms obtain o1 r where c: "collect_stages w rng stages = Some (o1, r)"
    by (cases "collect_stages w rng stages") (auto simp: main_def)
  show ?thesis
  proof (cases r)
    case (Inl e)
    with c assms show ?thesis by (simp add: main_def)
  next
    case (Inr x)
    obtain dfs rng' where x: "x = (dfs, rng')" by (cases x)
    from collect_stages_returns [OF c [unfolded Inr x]] c Inr x that show ?thesis by blast
  qed
qed

text \<open>
  A run whose selections return raises only when the path of a stage names a file, not a
  directory.
\<close>

lemma get_sample_returns_unless_file:
  assumes "fs w (path_join BASE_FOLDER stage) \<noteq> Some File"
    and "selection w rng stage \<noteq> None"
  shows "\<exists>out r. get_sample_mutation_data w rng stage = Some (out, Inr r)"
proof (cases "fs w (path_join BASE_FOLDER stage)")
  case None
  then show ?thesis by (simp add: get_sample_missing)
next
  case (Some t)
  with assms obtain es where dir: "fs w (path_join BASE_FOLDER stage) = Some (Dir es)"
    by (cases t) auto
  from assms(2) obtain cases r where "selection w rng stage = Some (cases, r)" by auto
  from get_sample_directory [OF dir this] show ?thesis by blast
qed

lemma collect_stages_returns_unless_file:
  "\<forall>s \<in> set ss. fs w (path_join BASE_FOLDER s) \<noteq> Some File
                \<and> (\<forall>r. selection w r s \<noteq> None) \<Longrightarrow>
     \<exists>out r. collect_stages w rng ss = Some (out, Inr r)"
proof (induction ss arbitrary: rng)
  case Nil
  show ?case by (simp add: returns_def)
next
  case (Cons s ss)
  obtain o1 d1 rng1 where g: "get_sample_mutation_data w rng s = Some (o1, Inr (d1, rng1))"
    using get_sample_returns_unless_file [of w s rng] Cons.prems by fastforce
  obtain o2 d2 rng2 where c: "collect_stages w rng1 ss = Some (o2, Inr (d2, rng2))"
    using Cons.IH [of rng1] Cons.prems by fastforce
  show ?case by (simp add: g c returns_def)
qed

lemma main_returns_unless_file:
  assumes "\<forall>s \<in> set stages. fs w (path_join BASE_FOLDER s) \<noteq> Some File
                             \<and> (\<forall>r. selection w r s \<noteq> None)"
  shows "\<exists>out res. main w rng = Some (out, Inr res)"
proof -
  obtain o1 dfs rng' where c: "collect_stages w rng stages = Some (o1, Inr (dfs, rng'))"
    using collect_stages_returns_unless_file [OF assms, of rng] by fastforce
  show ?thesis
  proof (cases "dfs = []")
    case True
    from main_after_collect(1) [OF c True] show ?thesis by blast
  next
    case False
    then obtain df where "pd_concat dfs = Inr df" using pd_concat_nonempty by blast
    from main_after_collect(2) [OF c False this] show ?thesis by blast
  qed
qed

section \<open>Properties of main and of visualize_mutation_cnv\<close>

text \<open>
  C1: whenever main returns, the number of rows of its combined table (none when the
  table is never built) is the sum, over every file found under every selected case of
  every stage, of the number of rows read_maf_file returns for that file: concatenation
  drops and duplicates no row.
\<close>

theorem main_row_count:
  assumes "main w rng = Some (out, Inr res)"
  shows "(case res of None \<Rightarrow> 0 | Some combined_df \<Rightarrow> length (rows combined_df))
           = sum_list (map (filtered_row_count w) (run_files w rng stages))"
proof -
  let ?dfs = "run_tables w rng stages"
  from assms obtain o1 rng' where
    c: "collect_stages w rng stages = Some (o1, Inr (?dfs, rng'))"
    by (rule main_returns)
  show ?thesis
  proof (cases "?dfs = []")
    case True
    from main_after_collect(1) [OF c True] assms have "res = None" by simp
    moreover have "sum_list (map (filtered_row_count w) (run_files w rng stages)) = 0"
      using run_tables_row_count [of w rng stages] True by simp
    ultimately show ?thesis by simp
  next
    case False
    then obtain df where df: "pd_concat ?dfs = Inr df"
      using pd_concat_nonempty by blast
    from main_after_collect(2) [OF c False df] assms have "res = Some df" by simp
    then show ?thesis
      by (simp add: pd_concat_row_count [OF df] run_tables_row_count)
  qed
qed

text \<open>
  C2: every row of every table get_sample_mutation_data appends has a Case value and a
  Stage value that are not missing (the Stage value is the stage's label) and a
  Variant_Classification in the coding-variant allow-list; concatenation in main keeps
  this for every row of the combined table.
\<close>

theorem combined_rows_invariant:
  "(get_sample_mutation_data w rng stage = Some (out, Inr (dfs, rng')) \<longrightarrow>
      (\<forall>df \<in> set dfs. \<forall>r \<in> set (rows df).
         row_invariant r \<and> cell_at r ''Stage'' = Str stage))
   \<and> (main w rng = Some (out', Inr (Some combined_df)) \<longrightarrow>
        (\<forall>r \<in> set (rows combined_df).
           row_invariant r \<and> (\<exists>s \<in> set stages. cell_at r ''Stage'' = Str s)))"
proof (rule conjI; intro impI ballI)
  fix df r
  assume g: "get_sample_mutation_data w rng stage = Some (out, Inr (dfs, rng'))"
    and df: "df \<in> set dfs" and r: "r \<in> set (rows df)"
  from get_sample_returns(1) [OF g] df have "stamped stage df"
    by (simp add: stamped_stage_tables)
  with r show "row_invariant r \<and> cell_at r ''Stage'' = Str stage"
    by (simp add: stamped_def)
next
  fix r'
  assume m: "main w rng = Some (out', Inr (Some combined_df))"
    and r': "r' \<in> set (rows combined_df)"
  let ?dfs = "run_tables w rng stages"
  from m obtain o1 rng1 where
    c: "collect_stages w rng stages = Some (o1, Inr (?dfs, rng1))"
    by (rule main_returns)
  have ne: "?dfs \<noteq> []"
    using main_after_collect(1) [OF c] m by auto
  then obtain df where df: "pd_concat ?dfs = Inr df"
    using pd_concat_nonempty by blast
  from main_after_collect(2) [OF c ne df] m have eq: "combined_df = df" by simp
  from pd_concat_keeps [OF df r' [unfolded eq]]
  obtain d r where d: "d \<in> set ?dfs" "r \<in> set (rows d)"
    and same: "\<And>c. c \<in> set (columns d) \<Longrightarrow> cell_at r' c = cell_at r c"
    by blast
  from stamped_run_tables [OF d(1)] obtain s where s: "s \<in> set stages" "stamped s d"
    by blast
  from s(2) d(2) have cols: "{''Variant_Classification'', ''Case'', ''Stage''} \<subseteq> set (columns d)"
    and inv: "row_invariant r" and st: "cell_at r ''Stage'' = Str s"
    by (simp_all add: stamped_def)
  from cols same have "cell_at r' ''Variant_Classification'' = cell_at r ''Variant_Classification''"
    "cell_at r' ''Case'' = cell_at r ''Case''" "cell_at r' ''Stage'' = cell_at r ''Stage''"
    by simp_all
  with inv st s(1)
  show "row_invariant r' \<and> (\<exists>s \<in> set stages. cell_at r' ''Stage'' = Str s)"
    by (auto simp: row_invariant_def)
qed

text \<open>
  C9: a table returned by read_maf_file has at least one row; so the list of tables main
  collects is non-empty exactly when concatenating it gives a non-empty combined table.
\<close>

theorem read_maf_file_never_empty:
  "(snd (read_maf_file w p) = Inr (Some df) \<longrightarrow> rows df \<noteq> [] \<and> \<not> df_empty df)
   \<and> (collect_stages w rng stages = Some (out, Inr (all_mutation_data, rng')) \<longrightarrow>
        (all_mutation_data \<noteq> [] \<longleftrightarrow>
           (\<exists>combined_df. pd_concat all_mutation_data = Inr combined_df
                          \<and> \<not> df_empty combined_df)))"
proof (intro conjI impI)
  assume "snd (read_maf_file w p) = Inr (Some df)"
  then have "kept_table w p = Some df" by (simp add: kept_table_def)
  from kept_table_Some [OF this] show "rows df \<noteq> []" "\<not> df_empty df"
    by (auto simp: df_empty_def)
next
  assume c: "collect_stages w rng stages = Some (out, Inr (all_mutation_data, rng'))"
  show "all_mutation_data \<noteq> [] \<longleftrightarrow>
           (\<exists>combined_df. pd_concat all_mutation_data = Inr combined_df
                          \<and> \<not> df_empty combined_df)"
  proof
    assume ne: "all_mutation_data \<noteq> []"
    then obtain df where df: "pd_concat all_mutation_data = Inr df"
      using pd_concat_nonempty by blast
    obtain d0 where d0: "d0 \<in> set all_mutation_data" using ne by (cases all_mutation_data) auto
    with collect_stages_returns [OF c] stamped_run_tables obtain s where "stamped s d0"
      by blast
    then have r0: "rows d0 \<noteq> []" and c0: "''Stage'' \<in> set (columns d0)"
      by (simp_all add: stamped_def)
    from c0 pd_concat_columns [OF df d0] have "columns df \<noteq> []" by auto
    moreover have "rows df \<noteq> []"
      using pd_concat_rows [OF df] d0 r0 by auto
    ultimately show "\<exists>combined_df. pd_concat all_mutation_data = Inr combined_df
                          \<and> \<not> df_empty combined_df"
      using df by (auto simp: df_empty_def)
  next
    assume "\<exists>combined_df. pd_concat all_mutation_data = Inr combined_df
                          \<and> \<not> df_empty combined_df"
    then show "all_mutation_data \<noteq> []" by (auto simp: pd_concat_def)
  qed
qed

text \<open>
  C5: when main returns without a combined table (nothing was collected), no spreadsheet
  is written and the diagnostic line is printed; otherwise the combined table has rows and
  exactly one spreadsheet is written, with one sheet per stage label present in the table,
  named by the label, holding exactly the rows of that stage, with the table's columns
  and no index column.
\<close>

theorem main_spreadsheet:
  assumes "main w rng = Some (out, Inr res)"
  shows "(res = None \<longrightarrow>
            excel_files out = []
            \<and> Print ''No coding mutation data collected! Ensure MAF files exist.'' \<in> set out)
       \<and> (\<forall>combined_df. res = Some combined_df \<longrightarrow>
            rows combined_df \<noteq> []
            \<and> (\<exists>sheets. excel_files out = [(''mutation_cnv_filtered.xlsx'', sheets)]
                  \<and> distinct (map sheet_name sheets)
                  \<and> set (map sheet_name sheets) = stage_labels combined_df
                  \<and> (\<forall>sh \<in> set sheets.
                        body sh = stage_rows combined_df (sheet_name sh)
                        \<and> \<not> index_written sh
                        \<and> header sh = columns combined_df)))"
proof -
  let ?dfs = "run_tables w rng stages"
  from assms obtain o1 rng' where
    c: "collect_stages w rng stages = Some (o1, Inr (?dfs, rng'))"
    and p1: "\<forall>e \<in> set o1. \<exists>m. e = Print m"
    by (rule main_returns)
  have x1: "excel_files o1 = []" using p1 by (rule excel_files_prints)
  show ?thesis
  proof (cases "?dfs = []")
    case True
    from main_after_collect(1) [OF c True] assms
    have "res = None" "out = o1 @ [Print ''No coding mutation data collected! Ensure MAF files exist.'']"
      by simp_all
    then show ?thesis by (simp add: excel_files_append x1)
  next
    case False
    then obtain df where df: "pd_concat ?dfs = Inr df"
      using pd_concat_nonempty by blast
    from main_after_collect(2) [OF c False df] assms
    have res: "res = Some df"
      and out: "out = o1 @ fst (save_to_excel df ''mutation_cnv_filtered.xlsx'')
                        @ fst (visualize_mutation_cnv df)"
      by simp_all
    obtain d0 where d0: "d0 \<in> set ?dfs" using False by (cases ?dfs) auto
    with stamped_run_tables obtain s where "stamped s d0" by blast
    then have r0: "rows d0 \<noteq> []"
      and c0: "{''Variant_Classification'', ''Stage''} \<subseteq> set (columns d0)"
      by (simp_all add: stamped_def)
    from c0 pd_concat_columns [OF df d0]
    have cols: "''Variant_Classification'' \<in> set (columns df)" "''Stage'' \<in> set (columns df)"
      by auto
    have rows: "rows df \<noteq> []" using pd_concat_rows [OF df] d0 r0 by auto
    let ?sheets = "map (\<lambda>k. to_excel (df\<lparr>rows := stage_rows df k\<rparr>) k False)
                       (group_keys df ''Stage'')"
    have "excel_files out = [(''mutation_cnv_filtered.xlsx'', ?sheets)]"
      by (simp add: out excel_files_append x1 save_to_excel_result [OF cols(2)]
            visualize_result [OF cols] excel_files_map_Print)
    moreover have "map sheet_name ?sheets = group_keys df ''Stage''"
      by (simp add: to_excel_def comp_def)
    moreover have "\<forall>sh \<in> set ?sheets. body sh = stage_rows df (sheet_name sh)
                        \<and> \<not> index_written sh \<and> header sh = columns df"
      by (auto simp: to_excel_def)
    ultimately have sh: "excel_files out = [(''mutation_cnv_filtered.xlsx'', ?sheets)]"
      "distinct (map sheet_name ?sheets)"
      "set (map sheet_name ?sheets) = stage_labels df"
      "\<forall>sh \<in> set ?sheets. body sh = stage_rows df (sheet_name sh)
                        \<and> \<not> index_written sh \<and> header sh = columns df"
      using distinct_group_keys [of df "''Stage''"] set_group_keys [of df] by simp_all
    have "\<exists>sheets. excel_files out = [(''mutation_cnv_filtered.xlsx'', sheets)]
                  \<and> distinct (map sheet_name sheets)
                  \<and> set (map sheet_name sheets) = stage_labels df
                  \<and> (\<forall>sh \<in> set sheets.
                        body sh = stage_rows df (sheet_name sh)
                        \<and> \<not> index_written sh
                        \<and> header sh = columns df)"
      using sh by (intro exI [of _ ?sheets] conjI)
    with res rows show ?thesis by simp
  qed
qed

text \<open>
  C4: visualize_mutation_cnv raises exactly when the table lacks the Variant_Classification
  column or the Stage column, and what it raises is a ValueError; on a table with both
  columns it returns, and the figure it saves has one point per distinct Stage value, at
  the height of that stage's row count.
\<close>

theorem visualize_mutation_cnv_points:
  "((\<exists>e. snd (visualize_mutation_cnv df) = Inl e) \<longleftrightarrow>
       ''Variant_Classification'' \<notin> set (columns df) \<or> ''Stage'' \<notin> set (columns df))
   \<and> (\<forall>e. snd (visualize_mutation_cnv df) = Inl e \<longrightarrow> fst e = ValueError)
   \<and> (''Variant_Classification'' \<in> set (columns df) \<and> ''Stage'' \<in> set (columns df) \<longrightarrow>
        (\<exists>fig. visualize_mutation_cnv df =
                 ([ImageFile ''mutation_frequency_scatter_filtered.png'' fig, ShowFigure fig],
                  Inr ())
              \<and> distinct (map fst (scatter_points fig))
              \<and> set (map fst (scatter_points fig)) = stage_labels df
              \<and> (\<forall>(s, h) \<in> set (scatter_points fig). h = length (stage_rows df s))
              \<and> line_points fig = scatter_points fig))"
proof (cases "''Variant_Classification'' \<in> set (columns df) \<and> ''Stage'' \<in> set (columns df)")
  case True
  then have cols: "''Variant_Classification'' \<in> set (columns df)" "''Stage'' \<in> set (columns df)"
    by simp_all
  let ?pts = "map (\<lambda>k. (k, length (stage_rows df k))) (group_keys df ''Stage'')"
  let ?fig = "\<lparr>scatter_points = ?pts, line_points = ?pts,
                title = ''Mutation Frequency by Stage'', xlabel = ''Stage'',
                ylabel = ''Number of Mutations''\<rparr>"
  have mf: "map fst ?pts = group_keys df ''Stage''" by (simp add: comp_def)
  have v: "visualize_mutation_cnv df =
             ([ImageFile ''mutation_frequency_scatter_filtered.png'' ?fig, ShowFigure ?fig],
              Inr ())"
    by (rule visualize_result [OF cols])
  have d: "distinct (map fst (scatter_points ?fig))"
    using distinct_group_keys [of df "''Stage''"] by (simp only: figure.simps mf)
  have st: "set (map fst (scatter_points ?fig)) = stage_labels df"
    using set_group_keys [of df] by (simp only: figure.simps mf)
  have h: "\<forall>(s, h) \<in> set (scatter_points ?fig). h = length (stage_rows df s)" by auto
  have l: "line_points ?fig = scatter_points ?fig" by simp
  have "\<exists>fig. visualize_mutation_cnv df =
                 ([ImageFile ''mutation_frequency_scatter_filtered.png'' fig, ShowFigure fig],
                  Inr ())
              \<and> distinct (map fst (scatter_points fig))
              \<and> set (map fst (scatter_points fig)) = stage_labels df
              \<and> (\<forall>(s, h) \<in> set (scatter_points fig). h = length (stage_rows df s))
              \<and> line_points fig = scatter_points fig"
    using v d st h l by (intro exI [of _ ?fig] conjI)
  moreover have "\<not> (\<exists>e. snd (visualize_mutation_cnv df) = Inl e)" by (simp add: v)
  ultimately show ?thesis using True by blast
next
  case False
  then have "''Variant_Classification'' \<notin> set (columns df) \<or> ''Stage'' \<notin> set (columns df)"
    by simp
  from visualize_raises [OF this] False show ?thesis by auto
qed

section \<open>The example run, evaluated\<close>

lemma example_main_result:
  "map_option snd (main example_world 0) = Some (Inr (Some example_combined))"
  by code_simp

lemma example_main:
  "main example_world 0 = Some (printed (main example_world 0), Inr (Some example_combined))"
  using example_main_result by (auto simp: printed_def)

lemma empty_main:
  "main empty_world 0 =
     Some ([Print ''Warning: ./grade_generalised/StageI does not exist.'',
            Print ''Warning: ./grade_generalised/StageII does not exist.'',
            Print ''Warning: ./grade_generalised/StageIII does not exist.'',
            Print ''Warning: ./grade_generalised/StageIV does not exist.'',
            Print ''No coding mutation data collected! Ensure MAF files exist.''],
           Inr None)"
  by (simp add: main_def stages_def get_sample_mutation_data_def os_path_exists_def
        empty_world_def returns_def path_join_def BASE_FOLDER_def)

lemma example_stage_labels: "stage_labels example_combined = {''StageI'', ''StageIV''}"
  by (auto simp: stage_labels_def example_combined_def cell_at_def)

theorem main_row_count_witness:
  "sum_list (map (filtered_row_count example_world) (run_files example_world 0 stages)) = 3"
  using main_row_count [OF example_main] by (simp add: example_combined_def)

theorem combined_rows_invariant_witness:
  "list_all row_invariant (rows example_combined)
   \<and> list_all (\<lambda>df. list_all row_invariant (rows df)) (stage_tables example_world 0 ''StageI'')"
proof -
  have "selection example_world 0 ''StageI'' \<noteq> None"
    by (simp add: selection_Dir [OF example_fs_stage_i] example_case_folders_i)
  then obtain cases r where sel: "selection example_world 0 ''StageI'' = Some (cases, r)"
    by auto
  then have "stage_tables example_world 0 ''StageI''
               = concat (map (case_tables example_world ''StageI'') cases)"
    by (simp add: stage_tables_def selected_cases_def)
  then obtain out where g: "get_sample_mutation_data example_world 0 ''StageI'' =
      Some (out, Inr (stage_tables example_world 0 ''StageI'', r))"
    using get_sample_directory [OF example_fs_stage_i sel] by auto
  from combined_rows_invariant
         [where w = example_world and rng = 0 and stage = "''StageI''" and out = out
            and dfs = "stage_tables example_world 0 ''StageI''" and rng' = r
            and out' = "printed (main example_world 0)" and combined_df = example_combined]
       g example_main
  show ?thesis by (simp add: list_all_iff)
qed

theorem read_maf_file_never_empty_witness:
  "(\<exists>df. snd (read_maf_file example_world ''./grade_generalised/StageI/TCGA-A/a.maf'')
             = Inr (Some df) \<and> \<not> df_empty df)
   \<and> run_tables example_world 0 stages \<noteq> []
   \<and> (\<exists>combined_df. pd_concat (run_tables example_world 0 stages) = Inr combined_df
                      \<and> \<not> df_empty combined_df)"
proof -
  let ?p = "''./grade_generalised/StageI/TCGA-A/a.maf''"
  let ?df = "df_filter_isin maf_a ''Variant_Classification'' CODING_VARIANTS"
  have a: "snd (read_maf_file example_world ?p) = Inr (Some ?df)"
    by (simp add: read_maf_file_cases example_world_def example_read_csv_def maf_a_def
          required_columns_def df_empty_def df_filter_isin_def cell_at_def CODING_VARIANTS_def)
  obtain o1 rng' where c: "collect_stages example_world 0 stages
                            = Some (o1, Inr (run_tables example_world 0 stages, rng'))"
    using example_main by (rule main_returns)
  have ne: "run_tables example_world 0 stages \<noteq> []"
    using main_after_collect(1) [OF c] example_main by auto
  from read_maf_file_never_empty
         [of example_world ?p ?df 0 o1 "run_tables example_world 0 stages" rng'] a c ne
  show ?thesis by simp
qed

theorem main_spreadsheet_witness:
  "(\<exists>sheets. excel_files (printed (main example_world 0)) = [(''mutation_cnv_filtered.xlsx'', sheets)]
      \<and> set (map sheet_name sheets) = {''StageI'', ''StageIV''}
      \<and> list_all (\<lambda>sh. \<not> index_written sh
                        \<and> body sh = stage_rows example_combined (sheet_name sh)) sheets)
   \<and> excel_files (printed (main empty_world 0)) = []
   \<and> Print ''No coding mutation data collected! Ensure MAF files exist.''
        \<in> set (printed (main empty_world 0))"
proof -
  have "\<exists>sheets. excel_files (printed (main example_world 0)) = [(''mutation_cnv_filtered.xlsx'', sheets)]
      \<and> set (map sheet_name sheets) = {''StageI'', ''StageIV''}
      \<and> list_all (\<lambda>sh. \<not> index_written sh
                        \<and> body sh = stage_rows example_combined (sheet_name sh)) sheets"
    using main_spreadsheet [OF example_main]
    by (auto simp: example_stage_labels list_all_iff)
  moreover have "excel_files (printed (main empty_world 0)) = []
     \<and> Print ''No coding mutation data collected! Ensure MAF files exist.''
          \<in> set (printed (main empty_world 0))"
    using main_spreadsheet [OF empty_main] by (simp add: empty_main printed_def)
  ultimately show ?thesis by blast
qed

theorem visualize_mutation_cnv_points_witness:
  "(\<exists>e. snd (visualize_mutation_cnv maf_b) = Inl e \<and> fst e = ValueError)
   \<and> (\<exists>fig. visualize_mutation_cnv example_combined =
               ([ImageFile ''mutation_frequency_scatter_filtered.png'' fig, ShowFigure fig],
                Inr ())
            \<and> set (map fst (scatter_points fig)) = {''StageI'', ''StageIV''}
            \<and> distinct (map fst (scatter_points fig)))"
proof -
  have b: "''Variant_Classification'' \<notin> set (columns maf_b)" by (simp add: maf_b_def)
  have c: "''Variant_Classification'' \<in> set (columns example_combined)
           \<and> ''Stage'' \<in> set (columns example_combined)"
    by (simp add: example_combined_def)
  from visualize_mutation_cnv_points [of maf_b] b
  have 1: "\<exists>e. snd (visualize_mutation_cnv maf_b) = Inl e \<and> fst e = ValueError" by blast
  from visualize_mutation_cnv_points [of example_combined] c
  have 2: "\<exists>fig. visualize_mutation_cnv example_combined =
               ([ImageFile ''mutation_frequency_scatter_filtered.png'' fig, ShowFigure fig],
                Inr ())
            \<and> set (map fst (scatter_points fig)) = {''StageI'', ''StageIV''}
            \<and> distinct (map fst (scatter_points fig))"
    by (auto simp: example_stage_labels)
  from 1 2 show ?thesis by blast
qed

end
